theory Spec2Isabelle
  imports Complex_Main "HOL-Library.Word" "HOL-Library.Multiset"
begin

section \<open>eztimer: timing of functions under a randomised schedule\<close>

text \<open>
  A shallow embedding of \<^verbatim>\<open>eztimer::time\<close> (include/eztimer/eztimer.hpp).
  The function has three phases: it builds a randomised execution order, walks that
  order calling and timing the candidates, and reduces the recorded times of every
  candidate to a mean and a standard deviation.
\<close>

subsection \<open>Durations\<close>

text \<open>
  \<^verbatim>\<open>std::chrono::duration<double>\<close> is a count of seconds held in a double. A double is
  modelled as a real number or one of the three special values of IEEE 754. Finite
  results are taken exact: rounding, overflow to infinity and the sign of zero are not
  modelled (a zero divisor counts as +0, which is what the conversion of an unsigned
  count gives). The special values follow the IEEE rules, so that a division by zero is
  a value of the model as it is of the program.
\<close>

datatype double = Fin real | PInf | NInf | NaN

fun is_finite :: "double \<Rightarrow> bool" where
  "is_finite (Fin a) = True"
| "is_finite x = False"

fun dadd :: "double \<Rightarrow> double \<Rightarrow> double" where
  "dadd NaN y = NaN"
| "dadd x NaN = NaN"
| "dadd (Fin a) (Fin b) = Fin (a + b)"
| "dadd PInf NInf = NaN"
| "dadd NInf PInf = NaN"
| "dadd PInf y = PInf"
| "dadd x PInf = PInf"
| "dadd NInf y = NInf"
| "dadd x NInf = NInf"

fun dneg :: "double \<Rightarrow> double" where
  "dneg (Fin a) = Fin (- a)"
| "dneg PInf = NInf"
| "dneg NInf = PInf"
| "dneg NaN = NaN"

definition dsub :: "double \<Rightarrow> double \<Rightarrow> double" where
  "dsub x y = dadd x (dneg y)"

fun dmul :: "double \<Rightarrow> double \<Rightarrow> double" where
  "dmul NaN y = NaN"
| "dmul x NaN = NaN"
| "dmul (Fin a) (Fin b) = Fin (a * b)"
| "dmul (Fin a) y = (if a = 0 then NaN else if (0 < a) = (y = PInf) then PInf else NInf)"
| "dmul x (Fin b) = (if b = 0 then NaN else if (0 < b) = (x = PInf) then PInf else NInf)"
| "dmul x y = (if x = y then PInf else NInf)"

fun ddiv :: "double \<Rightarrow> double \<Rightarrow> double" where
  "ddiv NaN y = NaN"
| "ddiv x NaN = NaN"
| "ddiv (Fin a) (Fin b) =
     (if b = 0 then (if a = 0 then NaN else if 0 < a then PInf else NInf)
      else Fin (a / b))"
| "ddiv (Fin a) y = Fin 0"
| "ddiv x (Fin b) = (if (0 \<le> b) = (x = PInf) then PInf else NInf)"
| "ddiv x y = NaN"

text \<open>\<^verbatim>\<open>x < y\<close> on doubles: false as soon as one side is NaN.\<close>

fun dlt :: "double \<Rightarrow> double \<Rightarrow> bool" where
  "dlt NaN y = False"
| "dlt x NaN = False"
| "dlt (Fin a) (Fin b) = (a < b)"
| "dlt PInf y = False"
| "dlt x NInf = False"
| "dlt x y = True"

text \<open>
  \<^verbatim>\<open>lhs >= rhs\<close> on two \<^verbatim>\<open>std::chrono::duration\<close>: the library defines it as
  \<^verbatim>\<open>!(lhs < rhs)\<close>, and \<^verbatim>\<open>lhs < rhs\<close> as the comparison of the two counts. So it is true
  when one side is NaN.
\<close>

definition dge :: "double \<Rightarrow> double \<Rightarrow> bool" where
  "dge x y = (\<not> dlt x y)"

subsection \<open>Options and Timings\<close>

text \<open>
  \<^verbatim>\<open>struct Options\<close>: \<^verbatim>\<open>int iterations\<close>, \<^verbatim>\<open>int burn_in\<close>,
  \<^verbatim>\<open>unsigned long long seed\<close> and the two optional caps. The two \<^verbatim>\<open>int\<close> are 32-bit
  words read in two's complement (\<open>sint\<close>).
\<close>

record Options =
  iterations :: "32 word"
  burn_in :: "32 word"
  seed :: "64 word"
  max_time_per_function :: "double option"
  max_time_total :: "double option"

text \<open>\<^verbatim>\<open>struct Timings\<close>; the field \<^verbatim>\<open>times\<close> is named \<open>times_vec\<close> here.\<close>

record Timings =
  times_vec :: "double list"
  mean :: double
  sd :: double

definition Timings_init :: Timings where
  "Timings_init = \<lparr>times_vec = [], mean = Fin 0, sd = Fin 0\<rparr>"

subsection \<open>Callables, library functions and failures\<close>

text \<open>
  The candidates and the check are \<^verbatim>\<open>std::function\<close> objects of the caller: they act on
  the world outside the function (type \<open>'w\<close>) and may throw (type \<open>'e\<close>). A throw
  keeps the world it left behind.
\<close>

type_synonym ('e, 'r, 'w) candidate = "'w \<Rightarrow> ('e \<times> 'w) + ('r \<times> 'w)"
type_synonym ('e, 'r, 'w) checker = "'r \<Rightarrow> nat \<Rightarrow> 'w \<Rightarrow> ('e \<times> 'w) + 'w"

text \<open>
  The three functions of the C++ standard library that the code calls are parameters:
  the constructor of \<^verbatim>\<open>std::mt19937_64\<close> from a seed, \<^verbatim>\<open>std::shuffle\<close> of a range with
  a generator (it returns the shuffled range and the advanced generator), and
  \<^verbatim>\<open>std::chrono::steady_clock::now\<close>, which reads a time point in seconds off the world.
\<close>

record ('g, 'w) stdlib =
  mt19937_64 :: "64 word \<Rightarrow> 'g"
  shuffle :: "nat list \<Rightarrow> 'g \<Rightarrow> nat list \<times> 'g"
  steady_clock_now :: "'w \<Rightarrow> real \<times> 'w"

text \<open>
  How a call of \<^verbatim>\<open>time\<close> can fail: an exception of a candidate or of the check leaves it
  (\<open>Thrown\<close>, with the world at the throw); \<^verbatim>\<open>reserve\<close> throws \<^verbatim>\<open>std::length_error\<close>;
  the assertion fails; or the behaviour is undefined (signed overflow, an access or an
  erase out of range).
\<close>

datatype ('e, 'w) failure = Thrown 'e 'w | Length_error | Assertion_failed | Undefined

fun for_each :: "('a \<Rightarrow> 's \<Rightarrow> 'f + 's) \<Rightarrow> 'a list \<Rightarrow> 's \<Rightarrow> 'f + 's" where
  "for_each body [] s = Inr s"
| "for_each body (x # xs) s =
     (case body x s of Inl e \<Rightarrow> Inl e | Inr s' \<Rightarrow> for_each body xs s')"

subsection \<open>The execution order\<close>

text \<open>
  One pass of the outer loop of lines 118-123: the inner loop pushes \<open>0, ..., nfun - 1\<close>,
  then the last \<open>nfun\<close> elements are shuffled in place with the one generator.
\<close>

definition order_round :: "('g, 'w) stdlib \<Rightarrow> nat \<Rightarrow> nat list \<times> 'g \<Rightarrow> nat list \<times> 'g" where
  "order_round lib nfun st =
     (let (order, rng) = st;
          order1 = foldl (\<lambda>acc f. acc @ [f]) order [0..<nfun];
          keep = length order1 - nfun;
          (blk, rng') = shuffle lib (drop keep order1) rng
      in (take keep order1 @ blk, rng'))"

text \<open>The order and the generator after \<open>k\<close> passes of the outer loop, from an empty
  order and the generator seeded with \<open>sd0\<close> (line 115).\<close>

definition order_rounds :: "('g, 'w) stdlib \<Rightarrow> nat \<Rightarrow> nat \<Rightarrow> 64 word \<Rightarrow> nat list \<times> 'g" where
  "order_rounds lib nfun k sd0 = ((order_round lib nfun) ^^ k) ([], mt19937_64 lib sd0)"

text \<open>The loop \<^verbatim>\<open>for (int i = 0; i < num_iterations; ++i)\<close> makes \<open>nat num_iterations\<close>
  passes: none when the bound is negative.\<close>

definition make_order :: "('g, 'w) stdlib \<Rightarrow> nat \<Rightarrow> int \<Rightarrow> 64 word \<Rightarrow> nat list \<times> 'g" where
  "make_order lib nfun num_iterations sd0 = order_rounds lib nfun (nat num_iterations) sd0"

subsection \<open>The dispatch loop\<close>

record 'w loop_state =
  output_vec :: "Timings list"
  total_time :: double
  oIt :: nat
  world :: 'w

text \<open>
  The body of the inner loop from line 132 on (lines 132-155), for round \<open>i\<close> and the
  candidate \<open>current\<close>. \<open>Inr s\<close> with \<open>s\<close> unchanged is the \<^verbatim>\<open>continue\<close>. An index
  beyond \<^verbatim>\<open>output\<close> or \<^verbatim>\<open>funs\<close> is undefined behaviour.
\<close>

definition call_candidate ::
  "('g, 'w) stdlib \<Rightarrow> ('e, 'r, 'w) candidate list \<Rightarrow> ('e, 'r, 'w) checker \<Rightarrow> Options \<Rightarrow>
   int \<Rightarrow> nat \<Rightarrow> 'w loop_state \<Rightarrow> ('e, 'w) failure + 'w loop_state" where
  "call_candidate lib funs check opt i current s =
     (if length (output_vec s) \<le> current \<or> length funs \<le> current then Inl Undefined
      else let curout = output_vec s ! current in
      if sint (burn_in opt) \<le> i \<and>
         ((max_time_per_function opt \<noteq> None \<and>
           dge (mean curout) (the (max_time_per_function opt))) \<or>
          (max_time_total opt \<noteq> None \<and>
           dge (total_time s) (the (max_time_total opt))))
      then Inr s
      else
        let (start, w1) = steady_clock_now lib (world s) in
        case (funs ! current) w1 of
          Inl (e, w) \<Rightarrow> Inl (Thrown e w)
        | Inr (res, w2) \<Rightarrow>
            let (end, w3) = steady_clock_now lib w2;
                curtime = Fin (end - start);
                curout1 = curout\<lparr>times_vec := times_vec curout @ [curtime]\<rparr>
            in
            if sint (burn_in opt) \<le> i then
              (case check res current w3 of
                 Inl (e, w) \<Rightarrow> Inl (Thrown e w)
               | Inr w4 \<Rightarrow>
                   Inr (s\<lparr>output_vec := (output_vec s)
                                 [current := curout1\<lparr>mean := dadd (mean curout1) curtime\<rparr>],
                          total_time := (if max_time_total opt \<noteq> None
                                         then dadd (total_time s) curtime else total_time s),
                          world := w4\<rparr>))
            else Inr (s\<lparr>output_vec := (output_vec s)[current := curout1], world := w3\<rparr>))"

text \<open>Line 131: \<^verbatim>\<open>current = *oIt\<close>, undefined beyond the end of the order.\<close>

definition dispatch_call ::
  "('g, 'w) stdlib \<Rightarrow> ('e, 'r, 'w) candidate list \<Rightarrow> ('e, 'r, 'w) checker \<Rightarrow> Options \<Rightarrow>
   nat list \<Rightarrow> int \<Rightarrow> 'w loop_state \<Rightarrow> ('e, 'w) failure + 'w loop_state" where
  "dispatch_call lib funs check opt order i s =
     (if length order \<le> oIt s then Inl Undefined
      else call_candidate lib funs check opt i (order ! oIt s) s)"

text \<open>The inner loop (line 130) advances \<open>oIt\<close> after every body, also after a \<^verbatim>\<open>continue\<close>.\<close>

definition inner_step ::
  "('g, 'w) stdlib \<Rightarrow> ('e, 'r, 'w) candidate list \<Rightarrow> ('e, 'r, 'w) checker \<Rightarrow> Options \<Rightarrow>
   nat list \<Rightarrow> int \<Rightarrow> nat \<Rightarrow> 'w loop_state \<Rightarrow> ('e, 'w) failure + 'w loop_state" where
  "inner_step lib funs check opt order i f s =
     (case dispatch_call lib funs check opt order i s of
        Inl e \<Rightarrow> Inl e
      | Inr s' \<Rightarrow> Inr (s'\<lparr>oIt := Suc (oIt s')\<rparr>))"

definition dispatch_round ::
  "('g, 'w) stdlib \<Rightarrow> ('e, 'r, 'w) candidate list \<Rightarrow> ('e, 'r, 'w) checker \<Rightarrow> Options \<Rightarrow>
   nat list \<Rightarrow> nat \<Rightarrow> 'w loop_state \<Rightarrow> ('e, 'w) failure + 'w loop_state" where
  "dispatch_round lib funs check opt order i s =
     for_each (inner_step lib funs check opt order (int i)) [0..<length funs] s"

text \<open>The outer loop (line 129) over a list of round numbers; the program runs
  \<open>[0..<num_iterations]\<close>.\<close>

definition dispatch_rounds ::
  "('g, 'w) stdlib \<Rightarrow> ('e, 'r, 'w) candidate list \<Rightarrow> ('e, 'r, 'w) checker \<Rightarrow> Options \<Rightarrow>
   nat list \<Rightarrow> nat list \<Rightarrow> 'w loop_state \<Rightarrow> ('e, 'w) failure + 'w loop_state" where
  "dispatch_rounds lib funs check opt order rounds s =
     for_each (dispatch_round lib funs check opt order) rounds s"

subsection \<open>The reduction\<close>

text \<open>
  Lines 163-175 for one candidate. \<^verbatim>\<open>erase(begin, begin + burn_in)\<close> is undefined when
  \<open>burn_in\<close> is negative or beyond the end. The divisors are the unsigned counts
  \<^verbatim>\<open>size()\<close> and \<^verbatim>\<open>size() - 1\<close>, converted to double. The last statement of the loop body
  stores \<^verbatim>\<open>sd.count()\<close> back into \<^verbatim>\<open>sd\<close> and changes nothing.
\<close>

definition reduce_timings :: "Options \<Rightarrow> Timings \<Rightarrow> ('e, 'w) failure + Timings" where
  "reduce_timings opt curout =
     (if sint (burn_in opt) < 0 \<or> int (length (times_vec curout)) < sint (burn_in opt)
      then Inl Undefined
      else
        let c1 = curout\<lparr>times_vec := drop (nat (sint (burn_in opt))) (times_vec curout)\<rparr> in
        if times_vec c1 = [] then Inr c1
        else
          let c2 = c1\<lparr>mean := ddiv (mean c1) (Fin (real (length (times_vec c1))))\<rparr>;
              c3 = foldl (\<lambda>c id. let delta = dsub id (mean c) in c\<lparr>sd := dadd (sd c) (dmul delta delta)\<rparr>)
                     c2 (times_vec c2);
              c4 = c3\<lparr>sd := ddiv (sd c3) (Fin (real (length (times_vec c3) - 1)))\<rparr>
          in Inr c4)"

fun reduce_all :: "Options \<Rightarrow> Timings list \<Rightarrow> ('e, 'w) failure + Timings list" where
  "reduce_all opt [] = Inr []"
| "reduce_all opt (c # cs) =
     (case reduce_timings opt c of
        Inl e \<Rightarrow> Inl e
      | Inr c' \<Rightarrow> (case reduce_all opt cs of Inl e \<Rightarrow> Inl e | Inr cs' \<Rightarrow> Inr (c' # cs')))"

subsection \<open>The function\<close>

text \<open>
  \<^verbatim>\<open>opt.iterations + opt.burn_in\<close> is an addition of two \<^verbatim>\<open>int\<close>: undefined when the sum
  leaves the 32 bits. \<^verbatim>\<open>order.reserve(num_iterations * nfun)\<close> converts a negative
  \<open>num_iterations\<close> to a \<^verbatim>\<open>size_t\<close> near \<open>2^64\<close> and throws \<^verbatim>\<open>std::length_error\<close> when there
  is a candidate; otherwise the allocation is taken to succeed. The function returns
  the vector of timings; the model returns the world it leaves with it.
\<close>

definition time_order :: "('g, 'w) stdlib \<Rightarrow> nat \<Rightarrow> Options \<Rightarrow> nat list" where
  "time_order lib nfun opt =
     fst (make_order lib nfun (sint (iterations opt) + sint (burn_in opt)) (seed opt))"

definition time_init :: "nat \<Rightarrow> 'w \<Rightarrow> 'w loop_state" where
  "time_init nfun w =
     \<lparr>output_vec = replicate nfun Timings_init, total_time = Fin 0, oIt = 0, world = w\<rparr>"

definition time ::
  "('g, 'w) stdlib \<Rightarrow> ('e, 'r, 'w) candidate list \<Rightarrow> ('e, 'r, 'w) checker \<Rightarrow> Options \<Rightarrow>
   'w \<Rightarrow> ('e, 'w) failure + (Timings list \<times> 'w)" where
  "time lib funs check opt w =
     (let nfun = length funs;
          num_iterations = sint (iterations opt) + sint (burn_in opt)
      in
      if num_iterations < - (2 ^ 31) \<or> 2 ^ 31 \<le> num_iterations then Inl Undefined
      else if num_iterations < 0 \<and> nfun \<noteq> 0 then Inl Length_error
      else
        let order = time_order lib nfun opt in
        case dispatch_rounds lib funs check opt order [0..<nat num_iterations]
               (time_init nfun w) of
          Inl e \<Rightarrow> Inl e
        | Inr s \<Rightarrow>
            if oIt s \<noteq> length order then Inl Assertion_failed
            else (case reduce_all opt (output_vec s) of
                    Inl e \<Rightarrow> Inl e
                  | Inr out \<Rightarrow> Inr (out, world s)))"

section \<open>Notions the properties are stated with\<close>

subsection \<open>The schedule\<close>

text \<open>
  What the C++ standard promises of \<^verbatim>\<open>std::shuffle\<close>: the range holds the same elements
  afterwards, in some order. Which order is left to the implementation.
\<close>

definition shuffle_permutes :: "('g, 'w) stdlib \<Rightarrow> bool" where
  "shuffle_permutes lib = (\<forall>xs g. mset (fst (shuffle lib xs g)) = mset xs)"

text \<open>The generator after \<open>k\<close> passes of the loop that builds the order.\<close>

definition rng_after :: "('g, 'w) stdlib \<Rightarrow> nat \<Rightarrow> 64 word \<Rightarrow> nat \<Rightarrow> 'g" where
  "rng_after lib nfun sd0 k = snd (order_rounds lib nfun k sd0)"

text \<open>The \<open>k\<close>-th block of \<open>nfun\<close> consecutive entries of an order.\<close>

definition block :: "nat \<Rightarrow> nat list \<Rightarrow> nat \<Rightarrow> nat list" where
  "block nfun order k = take nfun (drop (k * nfun) order)"

definition order_ok :: "nat \<Rightarrow> nat \<Rightarrow> nat list \<Rightarrow> bool" where
  "order_ok nfun n order =
     (length order = n * nfun \<and> (\<forall>i<n. mset (block nfun order i) = mset [0..<nfun]))"

text \<open>The number of rounds the two loops make, and how many of them are burn-in rounds.\<close>

definition num_rounds :: "Options \<Rightarrow> nat" where
  "num_rounds opt = nat (sint (iterations opt) + sint (burn_in opt))"

definition burn_rounds :: "Options \<Rightarrow> nat" where
  "burn_rounds opt = nat (sint (burn_in opt))"

subsection \<open>One call and its effect on a record\<close>

text \<open>The body of the inner loop for a given candidate, followed by the \<^verbatim>\<open>++oIt\<close>.\<close>

definition call_and_advance ::
  "('g, 'w) stdlib \<Rightarrow> ('e, 'r, 'w) candidate list \<Rightarrow> ('e, 'r, 'w) checker \<Rightarrow> Options \<Rightarrow>
   int \<Rightarrow> nat \<Rightarrow> 'w loop_state \<Rightarrow> ('e, 'w) failure + 'w loop_state" where
  "call_and_advance lib funs check opt i current s =
     (case call_candidate lib funs check opt i current s of
        Inl e \<Rightarrow> Inl e
      | Inr s' \<Rightarrow> Inr (s'\<lparr>oIt := Suc (oIt s')\<rparr>))"

text \<open>A record after a burn-in call and after a timed call that was not skipped.\<close>

definition burn_in_sample :: "Timings \<Rightarrow> double \<Rightarrow> Timings" where
  "burn_in_sample t d = t\<lparr>times_vec := times_vec t @ [d]\<rparr>"

definition timed_sample :: "Timings \<Rightarrow> double \<Rightarrow> Timings" where
  "timed_sample t d = t\<lparr>times_vec := times_vec t @ [d], mean := dadd (mean t) d\<rparr>"

text \<open>
  What round \<open>i\<close> does to the record of a candidate it calls: a burn-in round appends
  one finite sample; a timed round leaves the record alone (possible only with a cap)
  or appends one finite sample and adds it to the running sum.
\<close>

definition round_effect :: "Options \<Rightarrow> int \<Rightarrow> Timings \<Rightarrow> Timings \<Rightarrow> bool" where
  "round_effect opt i t t' =
     (if i < sint (burn_in opt) then (\<exists>d. t' = t\<lparr>times_vec := times_vec t @ [Fin d]\<rparr>)
      else (t' = t \<and> (max_time_per_function opt \<noteq> None \<or> max_time_total opt \<noteq> None)) \<or>
           (\<exists>d. t' = t\<lparr>times_vec := times_vec t @ [Fin d], mean := dadd (mean t) (Fin d)\<rparr>))"

text \<open>
  The state in which the call for position \<open>p\<close> of the order starts: the rounds before
  the round of \<open>p\<close> have run, and the entries of that round before \<open>p\<close>.
\<close>

definition run_until ::
  "('g, 'w) stdlib \<Rightarrow> ('e, 'r, 'w) candidate list \<Rightarrow> ('e, 'r, 'w) checker \<Rightarrow> Options \<Rightarrow>
   'w \<Rightarrow> nat \<Rightarrow> ('e, 'w) failure + 'w loop_state" where
  "run_until lib funs check opt w p =
     (let nfun = length funs; order = time_order lib nfun opt in
      case dispatch_rounds lib funs check opt order [0..<p div nfun] (time_init nfun w) of
        Inl e \<Rightarrow> Inl e
      | Inr s \<Rightarrow> for_each (inner_step lib funs check opt order (int (p div nfun)))
                   [0..<p mod nfun] s)"

text \<open>
  The sum \<open>x\<close> has reached the cap \<open>m\<close>, written out: for two finite values the cap is at
  most the sum; it also holds when the sum is plus infinity or the cap minus infinity,
  and when one of the two is NaN.
\<close>

abbreviation reached :: "double \<Rightarrow> double \<Rightarrow> bool" where
  "reached x m \<equiv>
     (x = NaN \<or> m = NaN \<or> x = PInf \<or> m = NInf \<or> (\<exists>a b. x = Fin a \<and> m = Fin b \<and> b \<le> a))"

text \<open>Callables that always return: every candidate returns a result, in any world, and
  the check returns on such a result for the index of the candidate.\<close>

definition never_throw ::
  "('e, 'r, 'w) candidate list \<Rightarrow> ('e, 'r, 'w) checker \<Rightarrow> bool" where
  "never_throw funs check =
     (\<forall>k<length funs. \<forall>w. \<exists>r w'. (funs ! k) w = Inr (r, w') \<and> (\<forall>v. \<exists>v'. check r k v = Inr v'))"

subsection \<open>Statistics over the reals\<close>

fun real_of :: "double \<Rightarrow> real" where
  "real_of (Fin a) = a"
| "real_of x = 0"

text \<open>The sum of the squared deviations from the arithmetic mean.\<close>

definition sq_dev_sum :: "real list \<Rightarrow> real" where
  "sq_dev_sum ts = (\<Sum>t\<leftarrow>ts. (t - sum_list ts / real (length ts))\<^sup>2)"

text \<open>The record the reduction leaves for the timed samples \<open>ds\<close> of a candidate.\<close>

definition reduced :: "double list \<Rightarrow> Timings" where
  "reduced ds =
     (if ds = [] then \<lparr>times_vec = [], mean = Fin 0, sd = Fin 0\<rparr>
      else \<lparr>times_vec = ds,
            mean = Fin (sum_list (map real_of ds) / real (length ds)),
            sd = ddiv (Fin (sq_dev_sum (map real_of ds))) (Fin (real (length ds - 1)))\<rparr>)"

subsection \<open>A fixture after the tests\<close>

text \<open>
  The candidates of tests/src/eztimer.cpp sleep for a fixed time and return their own
  index; the check throws when the result is not the index. Here the world is the
  clock, in seconds. The first candidate sleeps 10 ms; the second runs for 20 ms more
  than the clock shows, so that its samples differ. The library of the fixture keeps
  the seed as the generator state; its shuffle reverses the range when the state is
  even and advances the state by one.
\<close>

definition test_lib :: "(64 word, real) stdlib" where
  "test_lib =
     \<lparr>mt19937_64 = (\<lambda>sd0. sd0),
      shuffle = (\<lambda>xs g. (if even (unat g) then rev xs else xs, g + 1)),
      steady_clock_now = (\<lambda>w. (w, w))\<rparr>"

definition test_duration :: "nat \<Rightarrow> real \<Rightarrow> real" where
  "test_duration c w = (if c = 0 then 1 / 100 else w + 1 / 50)"

definition sleeper :: "nat \<Rightarrow> (string, nat, real) candidate" where
  "sleeper c w = Inr (c, w + test_duration c w)"

definition test_funs :: "(string, nat, real) candidate list" where
  "test_funs = [sleeper 0, sleeper 1]"

definition test_check :: "(string, nat, real) checker" where
  "test_check x i w = (if x \<noteq> i then Inl (''whoops'', w) else Inr w)"

definition test_opt :: "int \<Rightarrow> Options" where
  "test_opt n =
     \<lparr>iterations = word_of_int n, burn_in = 1, seed = 4,
      max_time_per_function = None, max_time_total = None\<rparr>"

text \<open>The same candidates in the other order: each returns the index of the other.\<close>

definition swapped_funs :: "(string, nat, real) candidate list" where
  "swapped_funs = [sleeper 1, sleeper 0]"





text \<open>A check that always throws.\<close>

definition failing_check :: "(string, nat, real) checker" where
  "failing_check x i w = Inl (''no'', w)"


section \<open>Lemmas\<close>

subsection \<open>Building the order\<close>

lemma for_each_append:
  "for_each body (xs @ ys) s =
     (case for_each body xs s of Inl e \<Rightarrow> Inl e | Inr s' \<Rightarrow> for_each body ys s')"
  by (induction xs arbitrary: s) (auto split: sum.splits)

lemma push_loop: "foldl (\<lambda>acc f. acc @ [f]) order xs = order @ xs"
  by (induction xs arbitrary: order) auto

lemma order_round_eq:
  "order_round lib nfun (order, rng) =
     (order @ fst (shuffle lib [0..<nfun] rng), snd (shuffle lib [0..<nfun] rng))"
  by (simp add: order_round_def push_loop Let_def split: prod.splits)

lemma order_rounds_0: "order_rounds lib nfun 0 sd0 = ([], mt19937_64 lib sd0)"
  by (simp add: order_rounds_def)

lemma order_rounds_Suc:
  "order_rounds lib nfun (Suc k) sd0 =
     (fst (order_rounds lib nfun k sd0) @ fst (shuffle lib [0..<nfun] (rng_after lib nfun sd0 k)),
      snd (shuffle lib [0..<nfun] (rng_after lib nfun sd0 k)))"
proof -
  obtain order rng where st: "order_rounds lib nfun k sd0 = (order, rng)"
    by (cases "order_rounds lib nfun k sd0")
  have "order_rounds lib nfun (Suc k) sd0 = order_round lib nfun (order_rounds lib nfun k sd0)"
    by (simp add: order_rounds_def)
  then show ?thesis
    by (simp add: st order_round_eq rng_after_def)
qed

lemma shuffle_length: "shuffle_permutes lib \<Longrightarrow> length (fst (shuffle lib xs g)) = length xs"
  unfolding shuffle_permutes_def by (metis size_mset)

lemma order_rounds_length:
  "shuffle_permutes lib \<Longrightarrow> length (fst (order_rounds lib nfun k sd0)) = k * nfun"
  by (induction k) (simp_all add: order_rounds_0 order_rounds_Suc shuffle_length)

lemma order_rounds_prefix:
  "k \<le> n \<Longrightarrow> \<exists>rest. fst (order_rounds lib nfun n sd0) = fst (order_rounds lib nfun k sd0) @ rest"
proof (induction n)
  case 0
  then show ?case by simp
next
  case (Suc n)
  show ?case
  proof (cases "k = Suc n")
    case True
    then show ?thesis by simp
  next
    case False
    with Suc.prems have "k \<le> n" by simp
    from Suc.IH [OF this] obtain rest
      where "fst (order_rounds lib nfun n sd0) = fst (order_rounds lib nfun k sd0) @ rest" ..
    then show ?thesis by (simp add: order_rounds_Suc)
  qed
qed

lemma order_rounds_block:
  assumes perm: "shuffle_permutes lib" and k: "k < n"
  shows "block nfun (fst (order_rounds lib nfun n sd0)) k =
           fst (shuffle lib [0..<nfun] (rng_after lib nfun sd0 k))"
proof -
  from k have "Suc k \<le> n" by simp
  from order_rounds_prefix [OF this] obtain rest
    where "fst (order_rounds lib nfun n sd0) = fst (order_rounds lib nfun (Suc k) sd0) @ rest" ..
  then have eq: "fst (order_rounds lib nfun n sd0) =
      fst (order_rounds lib nfun k sd0) @ fst (shuffle lib [0..<nfun] (rng_after lib nfun sd0 k)) @ rest"
    by (simp add: order_rounds_Suc)
  show ?thesis
    unfolding block_def eq
    by (simp add: order_rounds_length [OF perm] shuffle_length [OF perm])
qed

lemma block_perm:
  assumes perm: "shuffle_permutes lib" and k: "k < n"
  shows "mset (block nfun (fst (order_rounds lib nfun n sd0)) k) = mset [0..<nfun]"
  using perm by (simp add: order_rounds_block [OF perm k] shuffle_permutes_def)

subsection \<open>One round of the dispatch loop\<close>

lemma for_each_Cons_Inr:
  "for_each body (x # xs) s = Inr s' \<Longrightarrow> \<exists>s1. body x s = Inr s1 \<and> for_each body xs s1 = Inr s'"
  by (auto split: sum.splits)

lemma call_and_advance_Inr:
  "call_and_advance lib funs check opt i c s = Inr s2 \<Longrightarrow>
   \<exists>s1. call_candidate lib funs check opt i c s = Inr s1 \<and> s2 = s1\<lparr>oIt := Suc (oIt s1)\<rparr>"
  by (auto simp: call_and_advance_def split: sum.splits)

lemma call_candidate_oIt:
  "call_candidate lib funs check opt i c s = Inr s' \<Longrightarrow> oIt s' = oIt s"
  by (auto simp: call_candidate_def Let_def split: if_splits prod.splits sum.splits)

lemma inner_loop_eq:
  "oIt s + length fs \<le> length order \<Longrightarrow>
   for_each (inner_step lib funs check opt order i) fs s =
   for_each (call_and_advance lib funs check opt i) (take (length fs) (drop (oIt s) order)) s"
proof (induction fs arbitrary: s)
  case Nil
  then show ?case by simp
next
  case (Cons f fs)
  from Cons.prems have lt: "oIt s < length order" by simp
  have tk: "take (Suc (length fs)) (drop (oIt s) order) =
              order ! oIt s # take (length fs) (drop (Suc (oIt s)) order)"
    using lt by (simp add: Cons_nth_drop_Suc [symmetric])
  have hd: "inner_step lib funs check opt order i f s =
              call_and_advance lib funs check opt i (order ! oIt s) s"
    using lt by (simp add: inner_step_def dispatch_call_def call_and_advance_def)
  show ?case
  proof (cases "call_and_advance lib funs check opt i (order ! oIt s) s")
    case (Inl e)
    then show ?thesis by (simp add: tk hd)
  next
    case (Inr s1)
    then have "oIt s1 = Suc (oIt s)"
      by (auto simp: call_and_advance_def split: sum.splits dest: call_candidate_oIt)
    with Cons.prems have "oIt s1 + length fs \<le> length order" by simp
    from Cons.IH [OF this] show ?thesis
      by (simp add: tk hd Inr \<open>oIt s1 = Suc (oIt s)\<close>)
  qed
qed

lemma call_candidate_effect:
  assumes "call_candidate lib funs check opt i c s = Inr s'"
  shows "c < length (output_vec s)" and "length (output_vec s') = length (output_vec s)"
    and "k \<noteq> c \<Longrightarrow> output_vec s' ! k = output_vec s ! k"
    and "round_effect opt i (output_vec s ! c) (output_vec s' ! c)"
proof -
  show c: "c < length (output_vec s)"
    using assms by (auto simp: call_candidate_def split: if_splits)
  show "length (output_vec s') = length (output_vec s)"
    using assms
    by (auto simp: call_candidate_def Let_def split: if_splits prod.splits sum.splits)
  show "k \<noteq> c \<Longrightarrow> output_vec s' ! k = output_vec s ! k"
    using assms
    by (auto simp: call_candidate_def Let_def split: if_splits prod.splits sum.splits)
  show "round_effect opt i (output_vec s ! c) (output_vec s' ! c)"
    using assms c
    by (auto simp: call_candidate_def round_effect_def Let_def
        split: if_splits prod.splits sum.splits)
qed

lemma block_effect:
  assumes "for_each (call_and_advance lib funs check opt i) cs s = Inr s'" and "distinct cs"
  shows "oIt s' = oIt s + length cs \<and> length (output_vec s') = length (output_vec s) \<and>
         (\<forall>k. k \<notin> set cs \<longrightarrow> output_vec s' ! k = output_vec s ! k) \<and>
         (\<forall>k \<in> set cs. k < length (output_vec s) \<and>
             round_effect opt i (output_vec s ! k) (output_vec s' ! k))"
  using assms
proof (induction cs arbitrary: s)
  case Nil
  then show ?case by simp
next
  case (Cons c cs)
  from for_each_Cons_Inr [OF Cons.prems(1)] obtain s2 where
    c2: "call_and_advance lib funs check opt i c s = Inr s2" and
    rest2: "for_each (call_and_advance lib funs check opt i) cs s2 = Inr s'"
    by blast
  from call_and_advance_Inr [OF c2] rest2 obtain s1 where
    c1: "call_candidate lib funs check opt i c s = Inr s1" and
    rest: "for_each (call_and_advance lib funs check opt i) cs (s1\<lparr>oIt := Suc (oIt s1)\<rparr>) = Inr s'"
    by blast
  from Cons.prems have d: "distinct cs" and notin: "c \<notin> set cs" by simp_all
  note e = call_candidate_effect [OF c1] call_candidate_oIt [OF c1]
  from Cons.IH [OF rest d] have ih:
    "oIt s' = Suc (oIt s1) + length cs" "length (output_vec s') = length (output_vec s1)"
    "\<And>k. k \<notin> set cs \<Longrightarrow> output_vec s' ! k = output_vec s1 ! k"
    "\<And>k. k \<in> set cs \<Longrightarrow> k < length (output_vec s1) \<and>
        round_effect opt i (output_vec s1 ! k) (output_vec s' ! k)"
    by simp_all
  show ?case
  proof (intro conjI allI ballI impI)
    show "oIt s' = oIt s + length (c # cs)" using ih(1) e(5) by simp
    show "length (output_vec s') = length (output_vec s)" using ih(2) e(2) by simp
  next
    fix k assume "k \<notin> set (c # cs)"
    then show "output_vec s' ! k = output_vec s ! k" using ih(3) [of k] e(3) [of k] by simp
  next
    fix k assume k: "k \<in> set (c # cs)"
    show "k < length (output_vec s)" using k e(1) e(2) ih(4) [of k] by auto
    show "round_effect opt i (output_vec s ! k) (output_vec s' ! k)"
    proof (cases "k = c")
      case True
      then show ?thesis using e(4) ih(3) [of c] notin by simp
    next
      case False
      with k have "k \<in> set cs" by simp
      then show ?thesis using ih(4) [of k] e(3) [of k] False by simp
    qed
  qed
qed

lemma round_effects:
  assumes run: "dispatch_round lib funs check opt order i s = Inr s'"
    and ok: "order_ok (length funs) n order" and i: "i < n"
    and pos: "oIt s = i * length funs" and len: "length (output_vec s) = length funs"
  shows "oIt s' = Suc i * length funs" and "length (output_vec s') = length funs"
    and "k < length funs \<Longrightarrow> round_effect opt (int i) (output_vec s ! k) (output_vec s' ! k)"
proof -
  let ?N = "length funs"
  let ?cs = "block ?N order i"
  from i have "Suc i * ?N \<le> n * ?N" by (intro mult_le_mono1) simp
  with ok pos have fits: "oIt s + length [0..<?N] \<le> length order"
    by (simp add: order_ok_def)
  from ok i have ms: "mset ?cs = mset [0..<?N]" by (simp add: order_ok_def)
  have d: "distinct ?cs" using ms mset_eq_imp_distinct_iff [OF ms] by simp
  have st: "set ?cs = {0..<?N}" using mset_eq_setD [OF ms] by simp
  have lcs: "length ?cs = ?N" using mset_eq_length [OF ms] by simp
  from run have "for_each (call_and_advance lib funs check opt (int i)) ?cs s = Inr s'"
    using inner_loop_eq [OF fits, of lib funs check opt "int i"]
    by (simp add: dispatch_round_def block_def pos)
  from block_effect [OF this d] have eff:
    "oIt s' = oIt s + length ?cs" "length (output_vec s') = length (output_vec s)"
    "\<And>k. k \<in> set ?cs \<Longrightarrow> round_effect opt (int i) (output_vec s ! k) (output_vec s' ! k)"
    by simp_all
  show "oIt s' = Suc i * ?N" using eff(1) lcs pos by simp
  show "length (output_vec s') = ?N" using eff(2) len by simp
  show "k < ?N \<Longrightarrow> round_effect opt (int i) (output_vec s ! k) (output_vec s' ! k)"
    using eff(3) [of k] st by simp
qed

subsection \<open>Several rounds\<close>

lemma dispatch_rounds_snoc:
  "dispatch_rounds lib funs check opt order (rs @ [r]) s =
     (case dispatch_rounds lib funs check opt order rs s of
        Inl e \<Rightarrow> Inl e
      | Inr s1 \<Rightarrow> dispatch_round lib funs check opt order r s1)"
  by (simp add: dispatch_rounds_def for_each_append split: sum.splits)

lemma dispatch_rounds_Suc_Inr:
  assumes "dispatch_rounds lib funs check opt order [a..<Suc j] s = Inr s'" and "a \<le> j"
  shows "\<exists>s1. dispatch_rounds lib funs check opt order [a..<j] s = Inr s1 \<and>
              dispatch_round lib funs check opt order j s1 = Inr s'"
  using assms by (auto simp: dispatch_rounds_snoc split: sum.splits)

lemma rounds_burn_in:
  assumes ok: "order_ok (length funs) n order"
    and pos: "oIt s = a * length funs" and len: "length (output_vec s) = length funs"
  shows "dispatch_rounds lib funs check opt order [a..<j] s = Inr s' \<Longrightarrow> a \<le> j \<Longrightarrow> j \<le> n \<Longrightarrow>
         int j \<le> sint (burn_in opt) \<Longrightarrow>
         oIt s' = j * length funs \<and> length (output_vec s') = length funs \<and>
         (\<forall>k<length funs. \<exists>ds. length ds = j - a \<and> list_all is_finite ds \<and>
             output_vec s' ! k =
               (output_vec s ! k)\<lparr>times_vec := times_vec (output_vec s ! k) @ ds\<rparr>)"
proof (induction j arbitrary: s')
  case 0
  then show ?case using pos len by (simp add: dispatch_rounds_def)
next
  case (Suc j)
  show ?case
  proof (cases "a = Suc j")
    case True
    with Suc.prems pos len show ?thesis by (simp add: dispatch_rounds_def)
  next
    case False
    with Suc.prems have aj: "a \<le> j" by simp
    from dispatch_rounds_Suc_Inr [OF Suc.prems(1) aj] obtain s1 where
      r1: "dispatch_rounds lib funs check opt order [a..<j] s = Inr s1" and
      r2: "dispatch_round lib funs check opt order j s1 = Inr s'" by blast
    from Suc.prems have jn: "j < n" "j \<le> n" and jb: "int j \<le> sint (burn_in opt)"
      and burn: "int j < sint (burn_in opt)" by simp_all
    from Suc.IH [OF r1 aj jn(2) jb] have ih:
      "oIt s1 = j * length funs" "length (output_vec s1) = length funs"
      "\<And>k. k < length funs \<Longrightarrow> \<exists>ds. length ds = j - a \<and> list_all is_finite ds \<and>
             output_vec s1 ! k =
               (output_vec s ! k)\<lparr>times_vec := times_vec (output_vec s ! k) @ ds\<rparr>"
      by simp_all
    note re = round_effects [OF r2 ok jn(1) ih(1) ih(2)]
    show ?thesis
    proof (intro conjI allI impI)
      show "oIt s' = Suc j * length funs" by (rule re(1))
      show "length (output_vec s') = length funs" by (rule re(2))
    next
      fix k assume k: "k < length funs"
      from ih(3) [OF k] obtain ds where ds: "length ds = j - a" "list_all is_finite ds"
        "output_vec s1 ! k = (output_vec s ! k)\<lparr>times_vec := times_vec (output_vec s ! k) @ ds\<rparr>"
        by blast
      from re(3) [OF k] burn obtain d where
        d: "output_vec s' ! k = (output_vec s1 ! k)\<lparr>times_vec := times_vec (output_vec s1 ! k) @ [Fin d]\<rparr>"
        by (auto simp: round_effect_def)
      have "length (ds @ [Fin d]) = Suc j - a" using ds(1) aj by simp
      moreover have "list_all is_finite (ds @ [Fin d])" using ds(2) by simp
      moreover have "output_vec s' ! k =
          (output_vec s ! k)\<lparr>times_vec := times_vec (output_vec s ! k) @ (ds @ [Fin d])\<rparr>"
        using d ds(3) by simp
      ultimately show "\<exists>ds. length ds = Suc j - a \<and> list_all is_finite ds \<and>
             output_vec s' ! k =
               (output_vec s ! k)\<lparr>times_vec := times_vec (output_vec s ! k) @ ds\<rparr>"
        by blast
    qed
  qed
qed

lemma rounds_timed:
  assumes ok: "order_ok (length funs) n order"
    and pos: "oIt s = a * length funs" and len: "length (output_vec s) = length funs"
    and timed: "sint (burn_in opt) \<le> int a"
  shows "dispatch_rounds lib funs check opt order [a..<j] s = Inr s' \<Longrightarrow> a \<le> j \<Longrightarrow> j \<le> n \<Longrightarrow>
         oIt s' = j * length funs \<and> length (output_vec s') = length funs \<and>
         (\<forall>k<length funs. \<exists>ds. length ds \<le> j - a \<and>
             (max_time_per_function opt = None \<and> max_time_total opt = None \<longrightarrow> length ds = j - a) \<and>
             list_all is_finite ds \<and>
             output_vec s' ! k =
               (output_vec s ! k)\<lparr>times_vec := times_vec (output_vec s ! k) @ ds,
                                  mean := foldl dadd (mean (output_vec s ! k)) ds\<rparr>)"
proof (induction j arbitrary: s')
  case 0
  then show ?case using pos len by (simp add: dispatch_rounds_def)
next
  case (Suc j)
  show ?case
  proof (cases "a = Suc j")
    case True
    with Suc.prems pos len show ?thesis by (simp add: dispatch_rounds_def)
  next
    case False
    with Suc.prems have aj: "a \<le> j" by simp
    from dispatch_rounds_Suc_Inr [OF Suc.prems(1) aj] obtain s1 where
      r1: "dispatch_rounds lib funs check opt order [a..<j] s = Inr s1" and
      r2: "dispatch_round lib funs check opt order j s1 = Inr s'" by blast
    from Suc.prems have jn: "j < n" "j \<le> n" by simp_all
    from timed aj have tj: "\<not> int j < sint (burn_in opt)" by simp
    from Suc.IH [OF r1 aj jn(2)] have ih:
      "oIt s1 = j * length funs" "length (output_vec s1) = length funs"
      "\<And>k. k < length funs \<Longrightarrow> \<exists>ds. length ds \<le> j - a \<and>
             (max_time_per_function opt = None \<and> max_time_total opt = None \<longrightarrow> length ds = j - a) \<and>
             list_all is_finite ds \<and>
             output_vec s1 ! k =
               (output_vec s ! k)\<lparr>times_vec := times_vec (output_vec s ! k) @ ds,
                                  mean := foldl dadd (mean (output_vec s ! k)) ds\<rparr>"
      by simp_all
    note re = round_effects [OF r2 ok jn(1) ih(1) ih(2)]
    show ?thesis
    proof (intro conjI allI impI)
      show "oIt s' = Suc j * length funs" by (rule re(1))
      show "length (output_vec s') = length funs" by (rule re(2))
    next
      fix k assume k: "k < length funs"
      let ?t = "output_vec s ! k"
      from ih(3) [OF k] obtain ds where ds: "length ds \<le> j - a"
        "max_time_per_function opt = None \<and> max_time_total opt = None \<longrightarrow> length ds = j - a"
        "list_all is_finite ds"
        "output_vec s1 ! k = ?t\<lparr>times_vec := times_vec ?t @ ds, mean := foldl dadd (mean ?t) ds\<rparr>"
        by blast
      from re(3) [OF k] tj consider
        (skip) "output_vec s' ! k = output_vec s1 ! k"
          "max_time_per_function opt \<noteq> None \<or> max_time_total opt \<noteq> None"
      | (call) d where "output_vec s' ! k =
          (output_vec s1 ! k)\<lparr>times_vec := times_vec (output_vec s1 ! k) @ [Fin d],
                               mean := dadd (mean (output_vec s1 ! k)) (Fin d)\<rparr>"
        by (auto simp: round_effect_def)
      then show "\<exists>ds. length ds \<le> Suc j - a \<and>
             (max_time_per_function opt = None \<and> max_time_total opt = None \<longrightarrow> length ds = Suc j - a) \<and>
             list_all is_finite ds \<and>
             output_vec s' ! k =
               ?t\<lparr>times_vec := times_vec ?t @ ds, mean := foldl dadd (mean ?t) ds\<rparr>"
      proof cases
        case skip
        have "length ds \<le> Suc j - a" using ds(1) by simp
        with skip ds show ?thesis by auto
      next
        case call
        have "length (ds @ [Fin d]) \<le> Suc j - a" using ds(1) aj by simp
        moreover have "max_time_per_function opt = None \<and> max_time_total opt = None \<longrightarrow>
            length (ds @ [Fin d]) = Suc j - a" using ds(2) aj by (auto simp: Suc_diff_le)
        moreover have "list_all is_finite (ds @ [Fin d])" using ds(3) by simp
        moreover have "output_vec s' ! k =
            ?t\<lparr>times_vec := times_vec ?t @ (ds @ [Fin d]),
               mean := foldl dadd (mean ?t) (ds @ [Fin d])\<rparr>"
          using call ds(4) by simp
        ultimately show ?thesis by blast
      qed
    qed
  qed
qed

subsection \<open>The reduction of one record\<close>

lemma finite_list: "list_all is_finite ds \<Longrightarrow> map Fin (map real_of ds) = ds"
proof (induction ds)
  case Nil
  then show ?case by simp
next
  case (Cons d ds)
  then show ?case by (cases d) simp_all
qed

lemma foldl_dadd_Fin: "foldl dadd (Fin a) (map Fin ts) = Fin (a + sum_list ts)"
  by (induction ts arbitrary: a) (simp_all add: add.assoc)

lemma foldl_sq_Fin:
  "foldl (\<lambda>a x. dadd a (dmul (dsub x (Fin m)) (dsub x (Fin m)))) (Fin a0) (map Fin ts) =
     Fin (a0 + (\<Sum>t\<leftarrow>ts. (t - m)\<^sup>2))"
  by (induction ts arbitrary: a0) (simp_all add: dsub_def power2_eq_square add.assoc)

lemma sd_loop:
  "foldl (\<lambda>c id. c\<lparr>sd := dadd (sd c) (dmul (dsub id (mean c)) (dsub id (mean c)))\<rparr>) c xs =
     c\<lparr>sd := foldl (\<lambda>a x. dadd a (dmul (dsub x (mean c)) (dsub x (mean c)))) (sd c) xs\<rparr>"
  by (induction xs arbitrary: c) simp_all

lemma reduce_timings_eq:
  "reduce_timings opt t =
     (if sint (burn_in opt) < 0 \<or> int (length (times_vec t)) < sint (burn_in opt)
      then Inl Undefined
      else let ts = drop (burn_rounds opt) (times_vec t) in
        if ts = [] then Inr (t\<lparr>times_vec := ts\<rparr>)
        else let m = ddiv (mean t) (Fin (real (length ts))) in
          Inr \<lparr>times_vec = ts, mean = m,
               sd = ddiv (foldl (\<lambda>a x. dadd a (dmul (dsub x m) (dsub x m))) (sd t) ts)
                      (Fin (real (length ts - 1)))\<rparr>)"
  by (simp add: reduce_timings_def burn_rounds_def Let_def sd_loop)

lemma reduce_timings_Inr:
  assumes "reduce_timings opt t = Inr t'"
  shows "0 \<le> sint (burn_in opt)" and "burn_rounds opt \<le> length (times_vec t)"
    and "times_vec t' = drop (burn_rounds opt) (times_vec t)"
  using assms
  by (auto simp: reduce_timings_eq burn_rounds_def Let_def split: if_splits)

lemma reduce_timings_raw:
  assumes b: "0 \<le> sint (burn_in opt)" and bs: "length bs = burn_rounds opt"
    and fin: "list_all is_finite ds"
  shows "reduce_timings opt \<lparr>times_vec = bs @ ds, mean = foldl dadd (Fin 0) ds, sd = Fin 0\<rparr> =
     Inr (if ds = [] then \<lparr>times_vec = [], mean = Fin 0, sd = Fin 0\<rparr>
          else \<lparr>times_vec = ds,
                mean = Fin (sum_list (map real_of ds) / real (length ds)),
                sd = ddiv (Fin (sq_dev_sum (map real_of ds))) (Fin (real (length ds - 1)))\<rparr>)"
proof (cases "ds = []")
  case True
  then show ?thesis using b bs
    by (simp add: reduce_timings_eq burn_rounds_def)
next
  case False
  define ts where "ts = map real_of ds"
  have ds: "ds = map Fin ts" using finite_list [OF fin] by (simp add: ts_def)
  have ne: "ts \<noteq> []" using False ds by simp
  then have n0: "real (length ts) \<noteq> 0" by simp
  have m: "ddiv (foldl dadd (Fin 0) ds) (Fin (real (length ds))) = Fin (sum_list ts / real (length ts))"
    using n0 by (simp add: ds foldl_dadd_Fin)
  have dr: "drop (burn_rounds opt) (bs @ ds) = ds" using bs by simp
  have ok: "\<not> (sint (burn_in opt) < 0 \<or> int (length (bs @ ds)) < sint (burn_in opt))"
    using b bs by (simp add: burn_rounds_def)
  have sq: "foldl (\<lambda>a x. dadd a (dmul (dsub x (Fin (sum_list ts / real (length ts))))
                                      (dsub x (Fin (sum_list ts / real (length ts))))))
              (Fin 0) ds = Fin (sq_dev_sum ts)"
    by (simp add: ds foldl_sq_Fin sq_dev_sum_def)
  have "reduce_timings opt \<lparr>times_vec = bs @ ds, mean = foldl dadd (Fin 0) ds, sd = Fin 0\<rparr> =
      Inr \<lparr>times_vec = ds, mean = Fin (sum_list ts / real (length ts)),
           sd = ddiv (Fin (sq_dev_sum ts)) (Fin (real (length ds - 1)))\<rparr>"
    unfolding reduce_timings_eq using ok False
    by (simp only: Let_def dr m sq if_False Timings.simps)
  then show ?thesis using False by (simp add: ts_def)
qed

lemma reduce_all_Inr:
  "(reduce_all opt ts :: ('e, 'w) failure + Timings list) = Inr out \<Longrightarrow>
     length out = length ts \<and>
     (\<forall>k<length ts. (reduce_timings opt (ts ! k) :: ('e, 'w) failure + Timings) = Inr (out ! k))"
proof (induction ts arbitrary: out)
  case Nil
  then show ?case by simp
next
  case (Cons t ts)
  from Cons.prems obtain t1 rest where
    t: "(reduce_timings opt t :: ('e, 'w) failure + Timings) = Inr t1"
    and r: "(reduce_all opt ts :: ('e, 'w) failure + Timings list) = Inr rest"
    and eq: "out = t1 # rest"
    by (auto split: sum.splits)
  from Cons.IH [OF r] show ?case using t eq by (auto simp: nth_Cons split: nat.splits)
qed

subsection \<open>The whole run\<close>

lemma time_order_ok:
  assumes "shuffle_permutes lib"
  shows "order_ok nfun (num_rounds opt) (time_order lib nfun opt)"
  using assms
  by (simp add: order_ok_def time_order_def make_order_def num_rounds_def
        order_rounds_length block_perm)

lemma time_Inr:
  assumes "(time lib funs check opt w :: ('e, 'w) failure + Timings list \<times> 'w) = Inr (out, w')"
  shows "\<exists>s. dispatch_rounds lib funs check opt (time_order lib (length funs) opt)
                [0..<num_rounds opt] (time_init (length funs) w) = Inr s \<and>
              (reduce_all opt (output_vec s) :: ('e, 'w) failure + Timings list) = Inr out \<and>
              w' = world s \<and>
              oIt s = length (time_order lib (length funs) opt)"
    and "funs \<noteq> [] \<Longrightarrow> 0 \<le> sint (iterations opt) + sint (burn_in opt)"
  using assms
  by (auto simp: time_def Let_def num_rounds_def split: if_splits sum.splits)

lemma time_init_simps:
  "oIt (time_init nfun w) = 0" "length (output_vec (time_init nfun w)) = nfun"
  "k < nfun \<Longrightarrow> output_vec (time_init nfun w) ! k = \<lparr>times_vec = [], mean = Fin 0, sd = Fin 0\<rparr>"
  "world (time_init nfun w) = w" "total_time (time_init nfun w) = Fin 0"
  by (simp_all add: time_init_def Timings_init_def)

lemma dispatch_rounds_split:
  assumes "dispatch_rounds lib funs check opt order [a..<c] s = Inr s'" and "a \<le> b" and "b \<le> c"
  shows "\<exists>sb. dispatch_rounds lib funs check opt order [a..<b] s = Inr sb \<and>
              dispatch_rounds lib funs check opt order [b..<c] sb = Inr s'"
proof -
  from assms(2,3) have "[a..<c] = [a..<b] @ [b..<c]"
    by (metis le_Suc_ex upt_add_eq_append)
  with assms(1) show ?thesis
    by (auto simp: dispatch_rounds_def for_each_append split: sum.splits)
qed

lemma dispatch_rounds_shape:
  assumes ok: "order_ok (length funs) n order"
    and pos: "oIt s = a * length funs" and len: "length (output_vec s) = length funs"
  shows "dispatch_rounds lib funs check opt order [a..<j] s = Inr s' \<Longrightarrow> a \<le> j \<Longrightarrow> j \<le> n \<Longrightarrow>
         oIt s' = j * length funs \<and> length (output_vec s') = length funs"
proof (induction j arbitrary: s')
  case 0
  then show ?case using pos len by (simp add: dispatch_rounds_def)
next
  case (Suc j)
  show ?case
  proof (cases "a = Suc j")
    case True
    with Suc.prems pos len show ?thesis by (simp add: dispatch_rounds_def)
  next
    case False
    with Suc.prems have aj: "a \<le> j" by simp
    from dispatch_rounds_Suc_Inr [OF Suc.prems(1) aj] obtain s1 where
      r1: "dispatch_rounds lib funs check opt order [a..<j] s = Inr s1" and
      r2: "dispatch_round lib funs check opt order j s1 = Inr s'" by blast
    from Suc.prems have jn: "j < n" "j \<le> n" by simp_all
    from Suc.IH [OF r1 aj jn(2)] have ih:
      "oIt s1 = j * length funs" "length (output_vec s1) = length funs" by simp_all
    from round_effects(1,2) [OF r2 ok jn(1) ih(1) ih(2)] show ?thesis by simp
  qed
qed

lemma dispatch_run:
  assumes perm: "shuffle_permutes lib"
    and b0: "0 \<le> sint (burn_in opt)" and bn: "burn_rounds opt \<le> num_rounds opt"
    and d: "dispatch_rounds lib funs check opt (time_order lib (length funs) opt)
              [0..<num_rounds opt] (time_init (length funs) w) = Inr s"
    and k: "k < length funs"
  shows "\<exists>sb bs ds.
     dispatch_rounds lib funs check opt (time_order lib (length funs) opt)
       [0..<burn_rounds opt] (time_init (length funs) w) = Inr sb \<and>
     dispatch_rounds lib funs check opt (time_order lib (length funs) opt)
       [burn_rounds opt..<num_rounds opt] sb = Inr s \<and>
     length (output_vec s) = length funs \<and>
     length bs = burn_rounds opt \<and> list_all is_finite bs \<and> list_all is_finite ds \<and>
     output_vec sb ! k = \<lparr>times_vec = bs, mean = Fin 0, sd = Fin 0\<rparr> \<and>
     output_vec s ! k = \<lparr>times_vec = bs @ ds, mean = foldl dadd (Fin 0) ds, sd = Fin 0\<rparr> \<and>
     length ds \<le> num_rounds opt - burn_rounds opt \<and>
     (max_time_per_function opt = None \<and> max_time_total opt = None \<longrightarrow>
        length ds = num_rounds opt - burn_rounds opt)"
proof -
  let ?N = "length funs"
  let ?order = "time_order lib ?N opt"
  let ?n = "num_rounds opt"
  let ?b = "burn_rounds opt"
  let ?init = "time_init ?N w"
  let ?D = "dispatch_rounds lib funs check opt ?order"
  note ok = time_order_ok [OF perm, of ?N opt]
  have i0: "oIt ?init = 0 * ?N" "length (output_vec ?init) = ?N"
    by (simp_all add: time_init_simps)
  from dispatch_rounds_shape [OF ok i0 d] have shape: "length (output_vec s) = ?N" by simp
  from dispatch_rounds_split [OF d _ bn] obtain sb where
    d1: "?D [0..<?b] ?init = Inr sb" and d2: "?D [?b..<?n] sb = Inr s" by auto
  have bb: "int ?b \<le> sint (burn_in opt)" using b0 by (simp add: burn_rounds_def)
  from rounds_burn_in [OF ok i0 d1 _ bn bb] k obtain bs where
    sb: "oIt sb = ?b * ?N" "length (output_vec sb) = ?N" and
    bs: "length bs = ?b" "list_all is_finite bs"
      "output_vec sb ! k = \<lparr>times_vec = bs, mean = Fin 0, sd = Fin 0\<rparr>"
    by (auto simp: time_init_simps)
  have tb: "sint (burn_in opt) \<le> int ?b" by (simp add: burn_rounds_def)
  from rounds_timed [OF ok sb tb d2 bn] k have
    "\<exists>ds. length ds \<le> ?n - ?b \<and>
       (max_time_per_function opt = None \<and> max_time_total opt = None \<longrightarrow> length ds = ?n - ?b) \<and>
       list_all is_finite ds \<and>
       output_vec s ! k =
         (output_vec sb ! k)\<lparr>times_vec := times_vec (output_vec sb ! k) @ ds,
                               mean := foldl dadd (mean (output_vec sb ! k)) ds\<rparr>"
    by blast
  then obtain ds where
    ds: "length ds \<le> ?n - ?b"
      "max_time_per_function opt = None \<and> max_time_total opt = None \<longrightarrow> length ds = ?n - ?b"
      "list_all is_finite ds"
      "output_vec s ! k = \<lparr>times_vec = bs @ ds, mean = foldl dadd (Fin 0) ds, sd = Fin 0\<rparr>"
    unfolding bs(3) by auto
  show ?thesis using d1 d2 shape bs ds by blast
qed

lemma time_run:
  assumes perm: "shuffle_permutes lib"
    and run: "time lib (funs :: ('e, 'r, 'w) candidate list) check opt w = Inr (out, w')"
    and k: "k < length funs"
  shows "\<exists>sb s bs ds.
     0 \<le> sint (burn_in opt) \<and> 0 \<le> sint (iterations opt) \<and>
     num_rounds opt = burn_rounds opt + nat (sint (iterations opt)) \<and>
     dispatch_rounds lib funs check opt (time_order lib (length funs) opt)
       [0..<burn_rounds opt] (time_init (length funs) w) = Inr sb \<and>
     dispatch_rounds lib funs check opt (time_order lib (length funs) opt)
       [burn_rounds opt..<num_rounds opt] sb = Inr s \<and>
     w' = world s \<and> length out = length funs \<and> length (output_vec s) = length funs \<and>
     length bs = burn_rounds opt \<and> list_all is_finite bs \<and> list_all is_finite ds \<and>
     output_vec sb ! k = \<lparr>times_vec = bs, mean = Fin 0, sd = Fin 0\<rparr> \<and>
     output_vec s ! k = \<lparr>times_vec = bs @ ds, mean = foldl dadd (Fin 0) ds, sd = Fin 0\<rparr> \<and>
     length ds \<le> nat (sint (iterations opt)) \<and>
     (max_time_per_function opt = None \<and> max_time_total opt = None \<longrightarrow>
        length ds = nat (sint (iterations opt))) \<and>
     (reduce_timings opt (output_vec s ! k) :: ('e, 'w) failure + Timings) = Inr (out ! k) \<and>
     out ! k = reduced ds"
proof -
  let ?N = "length funs"
  let ?order = "time_order lib ?N opt"
  let ?n = "num_rounds opt"
  let ?b = "burn_rounds opt"
  let ?init = "time_init ?N w"
  let ?D = "dispatch_rounds lib funs check opt ?order"
  from time_Inr(1) [OF run] obtain s where
    d: "?D [0..<?n] ?init = Inr s" and
    r: "(reduce_all opt (output_vec s) :: ('e, 'w) failure + Timings list) = Inr out" and
    w: "w' = world s" by blast
  from k have ne: "funs \<noteq> []" by auto
  from time_Inr(2) [OF run ne] have n0: "0 \<le> sint (iterations opt) + sint (burn_in opt)" .
  note ok = time_order_ok [OF perm, of ?N opt]
  have i0: "oIt ?init = 0 * ?N" "length (output_vec ?init) = ?N"
    by (simp_all add: time_init_simps)
  from dispatch_rounds_shape [OF ok i0 d] have shape: "length (output_vec s) = ?N" by simp
  from reduce_all_Inr [OF r] shape k have
    lo: "length out = ?N" and
    rk: "(reduce_timings opt (output_vec s ! k) :: ('e, 'w) failure + Timings) = Inr (out ! k)"
    by simp_all
  note rt = reduce_timings_Inr [OF rk]
  have bn: "?b \<le> ?n"
  proof (rule ccontr)
    assume "\<not> ?b \<le> ?n"
    then have lt: "?n < ?b" by simp
    then have "int ?n \<le> sint (burn_in opt)" by (simp add: burn_rounds_def)
    from rounds_burn_in [OF ok i0 d _ _ this] k obtain ds where
      "length ds = ?n"
      "output_vec s ! k = (output_vec ?init ! k)\<lparr>times_vec := times_vec (output_vec ?init ! k) @ ds\<rparr>"
      by auto
    then have "length (times_vec (output_vec s ! k)) = ?n"
      using k by (simp add: time_init_simps)
    with rt(2) lt show False by simp
  qed
  from rt(1) n0 bn have it: "0 \<le> sint (iterations opt)"
    by (simp add: num_rounds_def burn_rounds_def)
  from rt(1) it have nb: "?n = ?b + nat (sint (iterations opt))"
    by (simp add: num_rounds_def burn_rounds_def nat_add_distrib)
  from dispatch_run [OF perm rt(1) bn d k] obtain sb bs ds where
    d1: "?D [0..<?b] ?init = Inr sb" and d2: "?D [?b..<?n] sb = Inr s" and
    bs: "length bs = ?b" "list_all is_finite bs"
      "output_vec sb ! k = \<lparr>times_vec = bs, mean = Fin 0, sd = Fin 0\<rparr>" and
    ds: "length ds \<le> ?n - ?b"
      "max_time_per_function opt = None \<and> max_time_total opt = None \<longrightarrow> length ds = ?n - ?b"
      "list_all is_finite ds"
      "output_vec s ! k = \<lparr>times_vec = bs @ ds, mean = foldl dadd (Fin 0) ds, sd = Fin 0\<rparr>"
    by blast
  have "(reduce_timings opt (output_vec s ! k) :: ('e, 'w) failure + Timings) = Inr (reduced ds)"
    unfolding ds(4) reduced_def by (rule reduce_timings_raw [OF rt(1) bs(1) ds(3)])
  with rk have red: "out ! k = reduced ds" by simp
  have "length ds \<le> nat (sint (iterations opt))" using ds(1) nb by simp
  moreover have "max_time_per_function opt = None \<and> max_time_total opt = None \<longrightarrow>
      length ds = nat (sint (iterations opt))" using ds(2) nb by simp
  ultimately show ?thesis
    using rt(1) it nb d1 d2 w lo shape bs ds(3,4) rk red by blast
qed

subsection \<open>Blocks, lengths and positions\<close>


lemma reduced_simps:
  "times_vec (reduced ds) = ds"
  "reduced [] = \<lparr>times_vec = [], mean = Fin 0, sd = Fin 0\<rparr>"
  "ds \<noteq> [] \<Longrightarrow> mean (reduced ds) = Fin (sum_list (map real_of ds) / real (length ds))"
  "ds \<noteq> [] \<Longrightarrow> sd (reduced ds) =
     ddiv (Fin (sq_dev_sum (map real_of ds))) (Fin (real (length ds - 1)))"
  by (simp_all add: reduced_def)

lemma call_candidate_length:
  "call_candidate lib funs check opt i c s = Inr s' \<Longrightarrow>
     length (output_vec s') = length (output_vec s)"
  by (rule call_candidate_effect(2))

lemma inner_loop_shape:
  "for_each (inner_step lib funs check opt order i) fs s = Inr s' \<Longrightarrow>
     oIt s' = oIt s + length fs \<and> length (output_vec s') = length (output_vec s)"
proof (induction fs arbitrary: s)
  case Nil
  then show ?case by simp
next
  case (Cons f fs)
  from for_each_Cons_Inr [OF Cons.prems] obtain s1 where
    a: "inner_step lib funs check opt order i f s = Inr s1" and
    b: "for_each (inner_step lib funs check opt order i) fs s1 = Inr s'" by blast
  from a obtain s0 where c: "call_candidate lib funs check opt i (order ! oIt s) s = Inr s0"
    and s1: "s1 = s0\<lparr>oIt := Suc (oIt s0)\<rparr>"
    by (auto simp: inner_step_def dispatch_call_def split: if_splits sum.splits)
  from call_candidate_oIt [OF c] call_candidate_length [OF c] s1
  have "oIt s1 = Suc (oIt s)" "length (output_vec s1) = length (output_vec s)" by simp_all
  with Cons.IH [OF b] show ?case by simp
qed

lemma dispatch_rounds_length:
  "dispatch_rounds lib funs check opt order rs s = Inr s' \<Longrightarrow>
     length (output_vec s') = length (output_vec s)"
proof (induction rs arbitrary: s)
  case Nil
  then show ?case by (simp add: dispatch_rounds_def)
next
  case (Cons r rs)
  from Cons.prems obtain s1 where
    a: "dispatch_round lib funs check opt order r s = Inr s1" and
    b: "dispatch_rounds lib funs check opt order rs s1 = Inr s'"
    by (auto simp: dispatch_rounds_def split: sum.splits)
  from a have "length (output_vec s1) = length (output_vec s)"
    by (simp add: dispatch_round_def inner_loop_shape)
  with Cons.IH [OF b] show ?case by simp
qed

lemma dispatch_rounds_no_funs:
  "dispatch_rounds lib [] check opt order rs s = Inr s"
  by (induction rs) (simp_all add: dispatch_rounds_def dispatch_round_def)

lemma dge_iff: "dge x m = reached x m"
  unfolding dge_def by (cases x; cases m) auto

lemma cap_conds:
  "(max_time_per_function opt \<noteq> None \<and> dge x (the (max_time_per_function opt))) =
     (\<exists>m. max_time_per_function opt = Some m \<and> reached x m)"
  "(max_time_total opt \<noteq> None \<and> dge y (the (max_time_total opt))) =
     (\<exists>m. max_time_total opt = Some m \<and> reached y m)"
  unfolding dge_iff by auto

lemma call_candidate_called:
  assumes timed: "sint (burn_in opt) \<le> i"
    and c1: "current < length (output_vec s)" and c2: "current < length funs"
    and noskip: "\<not> ((\<exists>m. max_time_per_function opt = Some m \<and>
                         reached (mean (output_vec s ! current)) m) \<or>
                    (\<exists>m. max_time_total opt = Some m \<and> reached (total_time s) m))"
  shows "call_candidate lib funs check opt i current s =
           (case steady_clock_now lib (world s) of
              (start, w1) \<Rightarrow>
                (case (funs ! current) w1 of
                   Inl (e, w) \<Rightarrow> Inl (Thrown e w)
                 | Inr (res, w2) \<Rightarrow>
                     (case steady_clock_now lib w2 of
                        (stop, w3) \<Rightarrow>
                          (case check res current w3 of
                             Inl (e, w) \<Rightarrow> Inl (Thrown e w)
                           | Inr w4 \<Rightarrow>
                               Inr (s\<lparr>output_vec := (output_vec s)
                                        [current :=
                                           (output_vec s ! current)
                                             \<lparr>times_vec := times_vec (output_vec s ! current) @
                                                             [Fin (stop - start)],
                                              mean := dadd (mean (output_vec s ! current))
                                                        (Fin (stop - start))\<rparr>],
                                      total_time :=
                                        (case max_time_total opt of
                                           None \<Rightarrow> total_time s
                                         | Some m \<Rightarrow> dadd (total_time s) (Fin (stop - start))),
                                      world := w4\<rparr>)))))"
proof -
  from noskip have ns:
    "\<not> (sint (burn_in opt) \<le> i \<and>
        ((max_time_per_function opt \<noteq> None \<and>
          dge (mean (output_vec s ! current)) (the (max_time_per_function opt))) \<or>
         (max_time_total opt \<noteq> None \<and> dge (total_time s) (the (max_time_total opt)))))"
    unfolding cap_conds by blast
  have gd: "\<not> (length (output_vec s) \<le> current \<or> length funs \<le> current)"
    using c1 c2 by simp
  have "call_candidate lib funs check opt i current s =
      (let (start, w1) = steady_clock_now lib (world s) in
       case (funs ! current) w1 of
         Inl (e, w) \<Rightarrow> Inl (Thrown e w)
       | Inr (res, w2) \<Rightarrow>
           let (end, w3) = steady_clock_now lib w2;
               curtime = Fin (end - start);
               curout1 = (output_vec s ! current)
                           \<lparr>times_vec := times_vec (output_vec s ! current) @ [curtime]\<rparr>
           in
           if sint (burn_in opt) \<le> i then
             (case check res current w3 of
                Inl (e, w) \<Rightarrow> Inl (Thrown e w)
              | Inr w4 \<Rightarrow>
                  Inr (s\<lparr>output_vec := (output_vec s)
                                [current := curout1\<lparr>mean := dadd (mean curout1) curtime\<rparr>],
                         total_time := (if max_time_total opt \<noteq> None
                                        then dadd (total_time s) curtime else total_time s),
                         world := w4\<rparr>))
           else Inr (s\<lparr>output_vec := (output_vec s)[current := curout1], world := w3\<rparr>))"
    by (simp only: call_candidate_def Let_def if_not_P [OF gd] if_not_P [OF ns])
  then show ?thesis
    using timed by (simp add: Let_def split: prod.splits sum.splits option.splits)
qed



lemma order_ok_nth:
  assumes ok: "order_ok nfun n order" and p: "p < length order"
  shows "order ! p < nfun" and "p div nfun < n" and "0 < nfun"
proof -
  from ok p have pn: "p < n * nfun" by (simp add: order_ok_def)
  then show pos: "0 < nfun" by (cases nfun) auto
  from pn pos show j: "p div nfun < n" by (simp add: less_mult_imp_div_less)
  let ?blk = "block nfun order (p div nfun)"
  from ok j have ms: "mset ?blk = mset [0..<nfun]" by (simp add: order_ok_def)
  have len: "length ?blk = nfun" using mset_eq_length [OF ms] by simp
  have st: "set ?blk = {0..<nfun}" using mset_eq_setD [OF ms] by simp
  have f: "p mod nfun < nfun" using pos by simp
  have "p div nfun * nfun \<le> p" by simp
  with p have le: "p div nfun * nfun \<le> length order" by linarith
  have "?blk ! (p mod nfun) = order ! (p div nfun * nfun + p mod nfun)"
    using f le unfolding block_def by (simp add: nth_drop)
  then have "order ! p = ?blk ! (p mod nfun)" by simp
  moreover have "?blk ! (p mod nfun) \<in> set ?blk" using f len by (intro nth_mem) simp
  ultimately show "order ! p < nfun" using st by simp
qed

lemma upt_split: "i < n \<Longrightarrow> [0..<n] = [0..<i] @ i # [Suc i..<n]"
proof -
  assume i: "i < n"
  then have "[0..<n] = [0..<i] @ [i..<n]"
    by (metis le0 le_Suc_ex less_imp_le_nat upt_add_eq_append)
  with i show ?thesis by (simp add: upt_conv_Cons)
qed

lemma for_each_fails:
  assumes "for_each body xs s = Inr s1" and "body y s1 = Inl e"
  shows "for_each body (xs @ y # ys) s = Inl e"
  using assms by (simp add: for_each_append)

subsection \<open>Runs that return\<close>

lemma call_candidate_returns:
  assumes nt: "never_throw funs check"
    and c: "c < length funs" "c < length (output_vec s)"
  shows "\<exists>s'. call_candidate lib funs check opt i c s = Inr s'"
proof -
  obtain start w1 where n1: "steady_clock_now lib (world s) = (start, w1)"
    by (cases "steady_clock_now lib (world s)")
  from nt c(1) obtain r w2 where f: "(funs ! c) w1 = Inr (r, w2)"
    and acc: "\<And>v. \<exists>v'. check r c v = Inr v'"
    unfolding never_throw_def by blast
  obtain stop w3 where n2: "steady_clock_now lib w2 = (stop, w3)"
    by (cases "steady_clock_now lib w2")
  from acc obtain w4 where ch: "check r c w3 = Inr w4" by blast
  show ?thesis using c by (simp add: call_candidate_def Let_def n1 f n2 ch)
qed

lemma block_returns:
  assumes nt: "never_throw funs check"
  shows "\<forall>c \<in> set cs. c < length funs \<Longrightarrow> length (output_vec s) = length funs \<Longrightarrow>
         \<exists>s'. for_each (call_and_advance lib funs check opt i) cs s = Inr s'"
proof (induction cs arbitrary: s)
  case Nil
  then show ?case by simp
next
  case (Cons c cs)
  from Cons.prems have c: "c < length funs" "c < length (output_vec s)" by simp_all
  from call_candidate_returns [OF nt c] obtain s1 where
    s1: "call_candidate lib funs check opt i c s = Inr s1" by blast
  let ?s2 = "s1\<lparr>oIt := Suc (oIt s1)\<rparr>"
  have "length (output_vec ?s2) = length funs"
    using call_candidate_length [OF s1] Cons.prems(2) by simp
  with Cons.IH [of ?s2] Cons.prems(1) obtain s' where
    r: "for_each (call_and_advance lib funs check opt i) cs ?s2 = Inr s'" by auto
  have "call_and_advance lib funs check opt i c s = Inr ?s2"
    by (simp add: call_and_advance_def s1)
  with r show ?case by simp
qed

lemma dispatch_round_returns:
  assumes nt: "never_throw funs check"
    and ok: "order_ok (length funs) n order" and i: "i < n"
    and pos: "oIt s = i * length funs" and len: "length (output_vec s) = length funs"
  shows "\<exists>s'. dispatch_round lib funs check opt order i s = Inr s'"
proof -
  let ?N = "length funs"
  let ?cs = "block ?N order i"
  from i have "Suc i * ?N \<le> n * ?N" by (intro mult_le_mono1) simp
  with ok pos have fits: "oIt s + length [0..<?N] \<le> length order"
    by (simp add: order_ok_def)
  from ok i have ms: "mset ?cs = mset [0..<?N]" by (simp add: order_ok_def)
  have st: "set ?cs = {0..<?N}" using mset_eq_setD [OF ms] by simp
  then have "\<forall>c \<in> set ?cs. c < ?N" by simp
  from block_returns [OF nt this len] obtain s' where
    "for_each (call_and_advance lib funs check opt (int i)) ?cs s = Inr s'" by blast
  then have "dispatch_round lib funs check opt order i s = Inr s'"
    using inner_loop_eq [OF fits, of lib funs check opt "int i"]
    by (simp add: dispatch_round_def block_def pos)
  then show ?thesis by blast
qed

lemma dispatch_rounds_return:
  assumes nt: "never_throw funs check"
    and ok: "order_ok (length funs) n order"
    and pos: "oIt s = 0" and len: "length (output_vec s) = length funs"
  shows "j \<le> n \<Longrightarrow> \<exists>s'. dispatch_rounds lib funs check opt order [0..<j] s = Inr s'"
proof (induction j)
  case 0
  then show ?case by (simp add: dispatch_rounds_def)
next
  case (Suc j)
  then obtain s1 where r1: "dispatch_rounds lib funs check opt order [0..<j] s = Inr s1" by auto
  from pos have p0: "oIt s = 0 * length funs" by simp
  from Suc.prems have jn: "j \<le> n" "j < n" by simp_all
  from dispatch_rounds_shape [OF ok p0 len r1 _ jn(1)] have
    sh: "oIt s1 = j * length funs" "length (output_vec s1) = length funs" by simp_all
  from dispatch_round_returns [OF nt ok jn(2) sh] obtain s' where
    "dispatch_round lib funs check opt order j s1 = Inr s'" by blast
  then show ?case using r1 by (simp add: dispatch_rounds_snoc)
qed

lemma reduce_all_returns:
  "\<forall>k<length ts. \<exists>t'. (reduce_timings opt (ts ! k) :: ('e, 'w) failure + Timings) = Inr t' \<Longrightarrow>
   \<exists>out. (reduce_all opt ts :: ('e, 'w) failure + Timings list) = Inr out"
proof (induction ts)
  case Nil
  then show ?case by simp
next
  case (Cons t ts)
  from Cons.prems have "\<exists>t'. (reduce_timings opt t :: ('e, 'w) failure + Timings) = Inr t'"
    by (metis length_Cons nth_Cons_0 zero_less_Suc)
  then obtain t1 where t: "(reduce_timings opt t :: ('e, 'w) failure + Timings) = Inr t1" by blast
  from Cons.prems have
    "\<forall>k<length ts. \<exists>t'. (reduce_timings opt (ts ! k) :: ('e, 'w) failure + Timings) = Inr t'"
    by (metis Suc_less_eq length_Cons nth_Cons_Suc)
  from Cons.IH [OF this] obtain rest where
    "(reduce_all opt ts :: ('e, 'w) failure + Timings list) = Inr rest" by blast
  then show ?case by (simp add: t)
qed

lemma time_returns:
  assumes perm: "shuffle_permutes lib"
    and nt: "never_throw (funs :: ('e, 'r, 'w) candidate list) check"
    and b0: "0 \<le> sint (burn_in opt)" and it0: "0 \<le> sint (iterations opt)"
    and range: "sint (iterations opt) + sint (burn_in opt) < 2 ^ 31"
  shows "\<exists>out w'. time lib funs check opt w = Inr (out, w')"
proof -
  let ?N = "length funs"
  let ?order = "time_order lib ?N opt"
  let ?init = "time_init ?N w"
  note ok = time_order_ok [OF perm, of ?N opt]
  have i0: "oIt ?init = 0" "length (output_vec ?init) = ?N" by (simp_all add: time_init_simps)
  from dispatch_rounds_return [OF nt ok i0, of "num_rounds opt"] obtain s where
    d: "dispatch_rounds lib funs check opt ?order [0..<num_rounds opt] ?init = Inr s" by auto
  have i0': "oIt ?init = 0 * ?N" by (simp add: time_init_simps)
  from dispatch_rounds_shape [OF ok i0' i0(2) d] have
    sh: "oIt s = num_rounds opt * ?N" "length (output_vec s) = ?N" by simp_all
  from ok sh(1) have a: "oIt s = length ?order" by (simp add: order_ok_def)
  have bn: "burn_rounds opt \<le> num_rounds opt"
    using b0 it0 by (simp add: burn_rounds_def num_rounds_def)
  have "\<exists>t'. (reduce_timings opt (output_vec s ! k) :: ('e, 'w) failure + Timings) = Inr t'"
    if k: "k < ?N" for k
  proof -
    from dispatch_run [OF perm b0 bn d k] obtain bs ds where
      bs: "length bs = burn_rounds opt" and fin: "list_all is_finite ds" and
      raw: "output_vec s ! k = \<lparr>times_vec = bs @ ds, mean = foldl dadd (Fin 0) ds, sd = Fin 0\<rparr>"
      by blast
    have "(reduce_timings opt (output_vec s ! k) :: ('e, 'w) failure + Timings) = Inr (reduced ds)"
      unfolding raw reduced_def by (rule reduce_timings_raw [OF b0 bs fin])
    then show ?thesis by blast
  qed
  with sh(2) have
    "\<forall>k<length (output_vec s).
       \<exists>t'. (reduce_timings opt (output_vec s ! k) :: ('e, 'w) failure + Timings) = Inr t'"
    by simp
  from reduce_all_returns [OF this] obtain out where
    r: "(reduce_all opt (output_vec s) :: ('e, 'w) failure + Timings list) = Inr out" by blast
  have "time lib funs check opt w = Inr (out, world s)"
    using b0 it0 range d a r by (simp add: time_def Let_def num_rounds_def)
  then show ?thesis by blast
qed

lemma returned_statistics:
  assumes perm: "shuffle_permutes lib"
    and run: "time lib (funs :: ('e, 'r, 'w) candidate list) check opt w = Inr (out, w')"
    and k: "k < length funs"
    and ne: "times_vec (out ! k) \<noteq> []"
  shows "list_all is_finite (times_vec (out ! k)) \<and>
         mean (out ! k) =
           Fin (sum_list (map real_of (times_vec (out ! k))) / real (length (times_vec (out ! k)))) \<and>
         sd (out ! k) =
           ddiv (Fin (sq_dev_sum (map real_of (times_vec (out ! k)))))
                (Fin (real (length (times_vec (out ! k)) - 1))) \<and>
         (2 \<le> length (times_vec (out ! k)) \<longrightarrow>
            sd (out ! k) =
              Fin (sq_dev_sum (map real_of (times_vec (out ! k))) /
                   (real (length (times_vec (out ! k))) - 1)))"
proof -
  from time_run [OF perm run k] obtain ds where
    fin: "list_all is_finite ds" and red: "out ! k = reduced ds" by blast
  have t: "times_vec (out ! k) = ds" by (simp add: red reduced_simps)
  with ne have ds: "ds \<noteq> []" by simp
  have "2 \<le> length ds \<Longrightarrow>
      ddiv (Fin (sq_dev_sum (map real_of ds))) (Fin (real (length ds - 1))) =
      Fin (sq_dev_sum (map real_of ds) / (real (length ds) - 1))"
    by (simp add: of_nat_diff)
  then show ?thesis
    unfolding t using fin ds by (simp add: red reduced_simps)
qed

subsection \<open>Samples of the burn-in rounds\<close>

lemma call_candidate_burn_in:
  assumes burn: "i < sint (burn_in opt)"
    and c1: "current < length (output_vec s)"
    and c2: "current < length (funs :: ('e, 'r, 'w) candidate list)"
  shows "call_candidate lib funs check opt i current s =
           (case steady_clock_now lib (world s) of
              (start, w1) \<Rightarrow>
                (case (funs ! current) w1 of
                   Inl (e, w) \<Rightarrow> Inl (Thrown e w)
                 | Inr (res, w2) \<Rightarrow>
                     (case steady_clock_now lib w2 of
                        (stop, w3) \<Rightarrow>
                          Inr (s\<lparr>output_vec := (output_vec s)
                                   [current := burn_in_sample (output_vec s ! current)
                                                 (Fin (stop - start))],
                                 world := w3\<rparr>))))"
  using assms unfolding call_candidate_def
  by (auto simp: Let_def burn_in_sample_def split: prod.splits sum.splits)

lemma call_candidate_appends:
  assumes "call_candidate lib funs check opt i c s = Inr s'"
  shows "\<exists>xs. times_vec (output_vec s' ! k) = times_vec (output_vec s ! k) @ xs"
proof (cases "k = c")
  case True
  from call_candidate_effect(4) [OF assms] show ?thesis
    unfolding True round_effect_def by (auto split: if_splits)
next
  case False
  from call_candidate_effect(3) [OF assms False] show ?thesis by simp
qed

lemma inner_step_appends:
  assumes "inner_step lib funs check opt order i f s = Inr s'"
  shows "\<exists>xs. times_vec (output_vec s' ! k) = times_vec (output_vec s ! k) @ xs"
proof -
  from assms obtain s1 where
    c: "call_candidate lib funs check opt i (order ! oIt s) s = Inr s1" and
    s': "s' = s1\<lparr>oIt := Suc (oIt s1)\<rparr>"
    by (auto simp: inner_step_def dispatch_call_def split: sum.splits if_splits)
  from call_candidate_appends [OF c, of k] s' show ?thesis by simp
qed

lemma inner_loop_appends:
  "for_each (inner_step lib funs check opt order i) fs s = Inr s' \<Longrightarrow>
     \<exists>xs. times_vec (output_vec s' ! k) = times_vec (output_vec s ! k) @ xs"
proof (induction fs arbitrary: s)
  case Nil
  then show ?case by simp
next
  case (Cons f fs)
  from for_each_Cons_Inr [OF Cons.prems] obtain s1 where
    a: "inner_step lib funs check opt order i f s = Inr s1" and
    b: "for_each (inner_step lib funs check opt order i) fs s1 = Inr s'" by blast
  from inner_step_appends [OF a, of k] Cons.IH [OF b] show ?case by auto
qed

lemma dispatch_rounds_appends:
  "dispatch_rounds lib funs check opt order rs s = Inr s' \<Longrightarrow>
     \<exists>xs. times_vec (output_vec s' ! k) = times_vec (output_vec s ! k) @ xs"
proof (induction rs arbitrary: s)
  case Nil
  then show ?case by (simp add: dispatch_rounds_def)
next
  case (Cons r rs)
  from for_each_Cons_Inr [OF Cons.prems [unfolded dispatch_rounds_def]] obtain s1 where
    a: "dispatch_round lib funs check opt order r s = Inr s1" and
    b: "dispatch_rounds lib funs check opt order rs s1 = Inr s'"
    unfolding dispatch_rounds_def by blast
  from inner_loop_appends [OF a [unfolded dispatch_round_def], of k] Cons.IH [OF b]
  show ?case by auto
qed


lemma burn_in_sample_position:
  assumes perm: "shuffle_permutes lib"
    and p: "p < length (time_order lib (length funs) opt)"
    and pre: "run_until lib funs check opt w p = Inr s"
    and burn: "int (p div length funs) < sint (burn_in opt)"
    and cur: "current = time_order lib (length funs) opt ! p"
    and fin: "dispatch_rounds lib funs check opt (time_order lib (length funs) opt)
                [0..<num_rounds opt] (time_init (length funs) w) = Inr sf"
  shows "current < length funs \<and> current < length (output_vec s) \<and>
         (\<exists>s'. call_candidate lib funs check opt (int (p div length funs)) current s = Inr s' \<and>
               length (times_vec (output_vec s ! current)) = p div length funs \<and>
               take (Suc (p div length funs)) (times_vec (output_vec sf ! current)) =
                 times_vec (output_vec s' ! current))"
proof -
  let ?N = "length funs"
  let ?order = "time_order lib ?N opt"
  let ?n = "num_rounds opt"
  let ?j = "p div ?N"
  let ?f = "p mod ?N"
  let ?init = "time_init ?N w"
  let ?D = "dispatch_rounds lib funs check opt ?order"
  let ?I = "inner_step lib funs check opt ?order (int ?j)"
  note ok = time_order_ok [OF perm, of ?N opt]
  note nth = order_ok_nth [OF ok p]
  from pre obtain sj where
    dj: "?D [0..<?j] ?init = Inr sj" and inner: "for_each ?I [0..<?f] sj = Inr s"
    by (auto simp: run_until_def Let_def split: sum.splits)
  have i0: "oIt ?init = 0 * ?N" "length (output_vec ?init) = ?N"
    by (simp_all add: time_init_simps)
  from nth(2) have jn: "?j \<le> ?n" "Suc ?j \<le> ?n" by simp_all
  from dispatch_rounds_shape [OF ok i0 dj _ jn(1)] have
    sj: "oIt sj = ?j * ?N" "length (output_vec sj) = ?N" by simp_all
  from inner_loop_shape [OF inner] sj have
    s: "oIt s = p" "length (output_vec s) = ?N" by simp_all
  have c: "current < ?N" using nth(1) cur by simp
  from dispatch_rounds_split [OF fin _ jn(2)] obtain sj1 where
    d1: "?D [0..<Suc ?j] ?init = Inr sj1" and rest: "?D [Suc ?j..<?n] sj1 = Inr sf" by auto
  from dispatch_rounds_Suc_Inr [OF d1] dj have
    rnd: "dispatch_round lib funs check opt ?order ?j sj = Inr sj1" by auto
  have f: "?f < ?N" using nth(3) by simp
  then have "[0..<?N] = [0..<?f] @ ?f # [Suc ?f..<?N]" by (rule upt_split)
  with rnd have "for_each ?I ([0..<?f] @ ?f # [Suc ?f..<?N]) sj = Inr sj1"
    by (simp add: dispatch_round_def)
  with inner have "for_each ?I (?f # [Suc ?f..<?N]) s = Inr sj1"
    by (simp add: for_each_append)
  from for_each_Cons_Inr [OF this] obtain s1 where
    step: "?I ?f s = Inr s1" and tl: "for_each ?I [Suc ?f..<?N] s1 = Inr sj1" by blast
  from step p s(1) cur obtain s' where
    call: "call_candidate lib funs check opt (int ?j) current s = Inr s'" and
    s1: "s1 = s'\<lparr>oIt := Suc (oIt s')\<rparr>"
    by (auto simp: inner_step_def dispatch_call_def split: sum.splits if_splits)
  from burn have jb: "int ?j \<le> sint (burn_in opt)" "int (Suc ?j) \<le> sint (burn_in opt)"
    by simp_all
  from rounds_burn_in [OF ok i0 dj _ jn(1) jb(1)] c have
    lj: "length (times_vec (output_vec sj ! current)) = ?j"
    by (auto simp: time_init_simps)
  from rounds_burn_in [OF ok i0 d1 _ jn(2) jb(2)] c have
    lj1: "length (times_vec (output_vec sj1 ! current)) = Suc ?j"
    by (auto simp: time_init_simps)
  from inner_loop_appends [OF inner, of current] obtain xs where
    xs: "times_vec (output_vec s ! current) = times_vec (output_vec sj ! current) @ xs" by blast
  from call_candidate_burn_in [OF burn _ c, of s lib check] call s(2) c obtain d where
    d: "times_vec (output_vec s' ! current) = times_vec (output_vec s ! current) @ [d]"
    by (auto simp: burn_in_sample_def split: prod.splits sum.splits)
  from inner_loop_appends [OF tl, of current] s1 obtain ys where
    ys: "times_vec (output_vec sj1 ! current) = times_vec (output_vec s' ! current) @ ys"
    by auto
  from dispatch_rounds_appends [OF rest, of current] obtain zs where
    zs: "times_vec (output_vec sf ! current) = times_vec (output_vec sj1 ! current) @ zs"
    by blast
  from lj lj1 xs d ys have e: "xs = []" "ys = []" by simp_all
  from e xs lj have "length (times_vec (output_vec s ! current)) = ?j" by simp
  moreover from e ys zs lj1 have
    "take (Suc ?j) (times_vec (output_vec sf ! current)) = times_vec (output_vec s' ! current)"
    by simp
  ultimately show ?thesis using c s(2) call by simp
qed

subsection \<open>Evaluating the fixture\<close>

lemma test_lib_permutes: "shuffle_permutes test_lib"
  by (simp add: shuffle_permutes_def test_lib_def)

lemma upt2: "[0..<2] = [0, Suc 0]" by (simp add: upt_rec)
lemma upt3: "[0..<3] = [0, Suc 0, 2]" by (simp add: upt_rec)
lemma funpow3: "(f ^^ 3) x = f (f (f x))" by (simp add: eval_nat_numeral)

lemma test_opt_simps:
  "sint (iterations (test_opt 2)) = 2" "sint (burn_in (test_opt n)) = 1" "seed (test_opt n) = 4"
  "max_time_per_function (test_opt n) = None" "max_time_total (test_opt n) = None"
  by (simp_all add: test_opt_def)

lemma test_rounds: "num_rounds (test_opt 2) = 3"
  by (simp add: num_rounds_def test_opt_simps)

lemma test_shuffle: "shuffle test_lib xs g = (if even (unat g) then rev xs else xs, g + 1)"
  by (simp add: test_lib_def)

lemma test_order_rounds:
  "order_rounds test_lib 2 3 4 = ([1, 0, 0, 1, 1, 0], 7)"
  by (simp add: order_rounds_def funpow3 order_round_eq test_shuffle upt2 test_lib_def)

lemma test_order: "time_order test_lib 2 (test_opt 2) = [1, 0, 0, 1, 1, 0]"
  by (simp add: time_order_def make_order_def test_opt_simps test_order_rounds)


lemma test_funs_length: "length test_funs = 2" by (simp add: test_funs_def)

lemma test_call:
  assumes "c < 2" and "length (output_vec s) = 2"
  shows "call_candidate test_lib test_funs test_check (test_opt n) i c s =
     Inr (if 1 \<le> i
          then s\<lparr>output_vec := (output_vec s)
                    [c := timed_sample (output_vec s ! c) (Fin (test_duration c (world s)))],
                 world := world s + test_duration c (world s)\<rparr>
          else s\<lparr>output_vec := (output_vec s)
                    [c := burn_in_sample (output_vec s ! c) (Fin (test_duration c (world s)))],
                 world := world s + test_duration c (world s)\<rparr>)"
proof -
  from assms(1) consider "c = 0" | "c = Suc 0" by linarith
  then show ?thesis
  proof cases
    case 1
    then show ?thesis using assms(2)
      by (simp add: call_candidate_def test_lib_def test_funs_def test_check_def sleeper_def
            test_opt_simps timed_sample_def burn_in_sample_def Let_def)
  next
    case 2
    then show ?thesis using assms(2)
      by (simp add: call_candidate_def test_lib_def test_funs_def test_check_def sleeper_def
            test_opt_simps timed_sample_def burn_in_sample_def Let_def)
  qed
qed

lemma upt1: "[0..<1] = [0]" by simp
lemma upt12: "[1..<2] = [Suc 0]" by (simp add: upt_rec)
lemma upt13: "[1..<3] = [Suc 0, 2]" by (simp add: upt_rec)
lemma replicate2: "replicate 2 x = [x, x]" by (simp add: numeral_2_eq_2)
lemma funpow2: "(f ^^ 2) x = f (f x)" by (simp add: eval_nat_numeral)

lemmas test_eval = dispatch_rounds_def dispatch_round_def test_funs_length upt1 upt2 upt3 upt12 upt13
  inner_step_def dispatch_call_def test_call time_init_def Timings_init_def burn_in_sample_def
  timed_sample_def test_duration_def replicate2

lemma test_burn_in_rounds:
  "dispatch_rounds test_lib test_funs test_check (test_opt n) [Suc 0, 0, 0, Suc 0, Suc 0, 0] [0..<1]
     (time_init 2 0) =
     Inr \<lparr>output_vec = [\<lparr>times_vec = [Fin (1 / 100)], mean = Fin 0, sd = Fin 0\<rparr>,
                        \<lparr>times_vec = [Fin (1 / 50)], mean = Fin 0, sd = Fin 0\<rparr>],
          total_time = Fin 0, oIt = 2, world = 3 / 100\<rparr>"
  by (simp add: test_eval)

lemma test_all_rounds:
  "dispatch_rounds test_lib test_funs test_check (test_opt n) [Suc 0, 0, 0, Suc 0, Suc 0, 0] [0..<3]
     (time_init 2 0) =
     Inr \<lparr>output_vec =
            [\<lparr>times_vec = [Fin (1 / 100), Fin (1 / 100), Fin (1 / 100)],
                mean = Fin (1 / 50), sd = Fin 0\<rparr>,
             \<lparr>times_vec = [Fin (1 / 50), Fin (3 / 50), Fin (3 / 25)],
                mean = Fin (9 / 50), sd = Fin 0\<rparr>],
          total_time = Fin 0, oIt = 6, world = 23 / 100\<rparr>"
  by (simp add: test_eval)

lemma test_time_2:
  "time test_lib test_funs test_check (test_opt 2) 0 =
     Inr ([\<lparr>times_vec = [Fin (1 / 100), Fin (1 / 100)], mean = Fin (1 / 100), sd = Fin 0\<rparr>,
           \<lparr>times_vec = [Fin (3 / 50), Fin (3 / 25)], mean = Fin (9 / 100), sd = Fin (9 / 5000)\<rparr>],
          23 / 100)"
  by (simp add: time_def Let_def test_funs_length test_order test_opt_simps test_all_rounds
        reduce_timings_eq burn_rounds_def dsub_def power2_eq_square)

lemma test_opt_1: "sint (iterations (test_opt 1)) = 1" by (simp add: test_opt_def)
lemma test_opt_0: "sint (iterations (test_opt 0)) = 0" by (simp add: test_opt_def)

lemma test_order_1: "time_order test_lib 2 (test_opt 1) = [Suc 0, 0, 0, Suc 0]"
  by (simp add: time_order_def make_order_def test_opt_simps test_opt_1 order_rounds_def funpow2
        order_round_eq test_shuffle upt2 test_lib_def)

lemma test_order_0: "time_order test_lib 2 (test_opt 0) = [Suc 0, 0]"
  by (simp add: time_order_def make_order_def test_opt_simps test_opt_0 order_rounds_def
        order_round_eq test_shuffle upt2 test_lib_def)

lemma test_time_1:
  "time test_lib test_funs test_check (test_opt 1) 0 =
     Inr ([\<lparr>times_vec = [Fin (1 / 100)], mean = Fin (1 / 100), sd = NaN\<rparr>,
           \<lparr>times_vec = [Fin (3 / 50)], mean = Fin (3 / 50), sd = NaN\<rparr>],
          1 / 10)"
  by (simp add: time_def Let_def test_funs_length test_order_1 test_opt_simps test_opt_1 test_eval
        reduce_timings_eq burn_rounds_def dsub_def)

lemma test_time_0:
  "time test_lib test_funs test_check (test_opt 0) 0 =
     Inr ([\<lparr>times_vec = [], mean = Fin 0, sd = Fin 0\<rparr>,
           \<lparr>times_vec = [], mean = Fin 0, sd = Fin 0\<rparr>],
          3 / 100)"
  by (simp add: time_def Let_def test_funs_length test_order_0 test_opt_simps test_opt_0 test_eval
        reduce_timings_eq burn_rounds_def dsub_def)

lemma test_time_empty: "time test_lib [] test_check (test_opt 2) 0 = Inr ([], 0)"
  by (simp add: time_def Let_def test_opt_simps time_order_def make_order_def order_rounds_def
        funpow3 order_round_eq test_shuffle dispatch_rounds_def dispatch_round_def upt3 time_init_def)

lemma swapped_funs_length: "length swapped_funs = 2" by (simp add: swapped_funs_def)

lemma swapped_call:
  assumes "c < 2" and "length (output_vec s) = 2"
  shows "call_candidate test_lib swapped_funs test_check (test_opt n) 0 c s =
     Inr (s\<lparr>output_vec := (output_vec s)
                [c := burn_in_sample (output_vec s ! c) (Fin (test_duration (1 - c) (world s)))],
             world := world s + test_duration (1 - c) (world s)\<rparr>)"
proof -
  from assms(1) consider "c = 0" | "c = Suc 0" by linarith
  then show ?thesis
  proof cases
    case 1
    then show ?thesis using assms(2)
      by (simp add: call_candidate_def test_lib_def swapped_funs_def sleeper_def
            test_opt_simps burn_in_sample_def Let_def)
  next
    case 2
    then show ?thesis using assms(2)
      by (simp add: call_candidate_def test_lib_def swapped_funs_def sleeper_def
            test_opt_simps burn_in_sample_def Let_def)
  qed
qed

lemma swapped_burn_in_round:
  "dispatch_rounds test_lib swapped_funs test_check (test_opt 1) [Suc 0, 0, 0, Suc 0] [0..<1]
     (time_init 2 0) =
     Inr \<lparr>output_vec = [\<lparr>times_vec = [Fin (3 / 100)], mean = Fin 0, sd = Fin 0\<rparr>,
                        \<lparr>times_vec = [Fin (1 / 100)], mean = Fin 0, sd = Fin 0\<rparr>],
          total_time = Fin 0, oIt = 2, world = 1 / 25\<rparr>"
  by (simp add: dispatch_rounds_def dispatch_round_def swapped_funs_length upt1 upt2 inner_step_def
        dispatch_call_def swapped_call time_init_def Timings_init_def replicate2
        burn_in_sample_def test_duration_def)

lemma swapped_run_until:
  "run_until test_lib swapped_funs test_check (test_opt 1) 0 2 =
     Inr \<lparr>output_vec = [\<lparr>times_vec = [Fin (3 / 100)], mean = Fin 0, sd = Fin 0\<rparr>,
                        \<lparr>times_vec = [Fin (1 / 100)], mean = Fin 0, sd = Fin 0\<rparr>],
          total_time = Fin 0, oIt = 2, world = 1 / 25\<rparr>"
  by (simp add: run_until_def Let_def swapped_funs_length test_order_1
        swapped_burn_in_round [unfolded upt1])

lemma test_never_throw: "never_throw test_funs test_check"
  by (auto simp: never_throw_def test_funs_def sleeper_def test_check_def less_Suc_eq)

section \<open>The properties\<close>



text \<open>
  C2. The claim: for a candidate with a non-empty returned sample sequence the reported
  mean is the arithmetic mean of the samples, and the reported standard deviation is the
  sum of the squared deviations from the mean divided by the count minus one, both in the
  units of the samples (seconds). The code computes the mean so, and it computes that
  quotient (lemma \<open>returned_statistics\<close>), but it stores the quotient itself in \<open>sd\<close>: line
  175 puts \<^verbatim>\<open>sd.count()\<close> back unchanged, and no square root is taken. The field that
  the header documents as the standard deviation of the times, in seconds, holds their
  sample variance, in squared seconds. In the fixture with two timed rounds the second
  candidate has the samples 60 ms and 120 ms: the mean is 90 ms, the quotient and the \<open>sd\<close>
  field are 9/5000, and the standard deviation, the square root of the quotient, is
  another number, above 40 ms.
\<close>

theorem sd_without_square_root:
  "time test_lib test_funs test_check (test_opt 2) 0 =
     Inr ([\<lparr>times_vec = [Fin (1 / 100), Fin (1 / 100)], mean = Fin (1 / 100), sd = Fin 0\<rparr>,
           \<lparr>times_vec = [Fin (3 / 50), Fin (3 / 25)], mean = Fin (9 / 100), sd = Fin (9 / 5000)\<rparr>],
          23 / 100) \<and>
   sum_list [3 / 50, 3 / 25] / 2 = (9 / 100 :: real) \<and>
   sq_dev_sum [3 / 50, 3 / 25] / (2 - 1) = 9 / 5000 \<and>
   sqrt (sq_dev_sum [3 / 50, 3 / 25] / (2 - 1)) \<noteq> 9 / 5000 \<and>
   1 / 25 < sqrt (sq_dev_sum [3 / 50, 3 / 25] / (2 - 1))"
proof -
  have v: "sq_dev_sum [3 / 50, 3 / 25] / (2 - 1) = 9 / 5000"
    by (simp add: sq_dev_sum_def power2_eq_square)
  have "(1 / 25 :: real)\<^sup>2 < 9 / 5000" by (simp add: power2_eq_square)
  then have lt: "1 / 25 < sqrt (9 / 5000 :: real)" by (rule real_less_rsqrt)
  then have ne: "sqrt (9 / 5000 :: real) \<noteq> 9 / 5000" by simp
  have m: "sum_list [3 / 50, 3 / 25] / 2 = (9 / 100 :: real)" by simp
  from ne have ne': "sqrt (sq_dev_sum [3 / 50, 3 / 25] / (2 - 1)) \<noteq> 9 / 5000"
    unfolding v .
  from lt have lt': "1 / 25 < sqrt (sq_dev_sum [3 / 50, 3 / 25] / (2 - 1))"
    unfolding v .
  from test_time_2 m v ne' lt' show ?thesis by (intro conjI)
qed

text \<open>
  C3. With neither cap set, whenever \<^verbatim>\<open>time\<close> returns (with a shuffle that permutes), every
  candidate's returned sample sequence has exactly \<open>iterations\<close> entries. The burn-in rounds
  ran before: after them the record of the candidate holds exactly \<open>burn_in\<close> samples and a
  running sum of zero; the later rounds only append to these, the returned sequence is
  exactly what was appended, and the returned record is the reduction of the returned
  sequence alone, so that no burn-in sample is returned or enters mean or sd.
\<close>

theorem no_caps_sample_count:
  assumes perm: "shuffle_permutes lib"
    and caps: "max_time_per_function opt = None" "max_time_total opt = None"
    and run: "time lib (funs :: ('e, 'r, 'w) candidate list) check opt w = Inr (out, w')"
    and k: "k < length funs"
  shows "int (length (times_vec (out ! k))) = sint (iterations opt) \<and>
         (\<exists>sb s.
            dispatch_rounds lib funs check opt (time_order lib (length funs) opt)
              [0..<burn_rounds opt] (time_init (length funs) w) = Inr sb \<and>
            dispatch_rounds lib funs check opt (time_order lib (length funs) opt)
              [burn_rounds opt..<num_rounds opt] sb = Inr s \<and>
            length (times_vec (output_vec sb ! k)) = burn_rounds opt \<and>
            int (burn_rounds opt) = sint (burn_in opt) \<and>
            times_vec (output_vec s ! k) = times_vec (output_vec sb ! k) @ times_vec (out ! k) \<and>
            mean (output_vec sb ! k) = Fin 0 \<and>
            out ! k = reduced (times_vec (out ! k)))"
proof -
  from time_run [OF perm run k] obtain sb s bs ds where
    b0: "0 \<le> sint (burn_in opt)" and it: "0 \<le> sint (iterations opt)" and
    d1: "dispatch_rounds lib funs check opt (time_order lib (length funs) opt)
           [0..<burn_rounds opt] (time_init (length funs) w) = Inr sb" and
    d2: "dispatch_rounds lib funs check opt (time_order lib (length funs) opt)
           [burn_rounds opt..<num_rounds opt] sb = Inr s" and
    bs: "length bs = burn_rounds opt"
      "output_vec sb ! k = \<lparr>times_vec = bs, mean = Fin 0, sd = Fin 0\<rparr>" and
    raw: "output_vec s ! k = \<lparr>times_vec = bs @ ds, mean = foldl dadd (Fin 0) ds, sd = Fin 0\<rparr>" and
    len: "max_time_per_function opt = None \<and> max_time_total opt = None \<longrightarrow>
            length ds = nat (sint (iterations opt))" and
    red: "out ! k = reduced ds"
    by blast
  have t: "times_vec (out ! k) = ds" by (simp add: red reduced_simps)
  have "int (length (times_vec (out ! k))) = sint (iterations opt)"
    using len caps it by (simp add: t)
  moreover have "int (burn_rounds opt) = sint (burn_in opt)" using b0 by (simp add: burn_rounds_def)
  ultimately show ?thesis
    using d1 d2 bs raw red unfolding t by auto
qed

text \<open>
  The fixture with \<open>iterations = 2\<close> and one burn-in round: two samples are returned.
\<close>

theorem no_caps_sample_count_witness:
  "shuffle_permutes test_lib \<and>
   max_time_per_function (test_opt 2) = None \<and> max_time_total (test_opt 2) = None \<and>
   time test_lib test_funs test_check (test_opt 2) 0 =
     Inr ([\<lparr>times_vec = [Fin (1 / 100), Fin (1 / 100)], mean = Fin (1 / 100), sd = Fin 0\<rparr>,
           \<lparr>times_vec = [Fin (3 / 50), Fin (3 / 25)], mean = Fin (9 / 100), sd = Fin (9 / 5000)\<rparr>],
          23 / 100) \<and>
   0 < length test_funs \<and>
   int (length [Fin (1 / 100), Fin (1 / 100)]) = sint (iterations (test_opt 2))"
proof -
  have k: "0 < length test_funs" by (simp add: test_funs_length)
  from no_caps_sample_count [OF test_lib_permutes test_opt_simps(4,5) test_time_2 k]
  have "int (length [Fin (1 / 100), Fin (1 / 100)]) = sint (iterations (test_opt 2))"
    by simp
  then show ?thesis using test_lib_permutes test_opt_simps(4,5) test_time_2 k by blast
qed

text \<open>
  C7. When \<^verbatim>\<open>time\<close> returns and the returned sample sequence of candidate \<open>k\<close> is empty, its
  mean and sd are both zero. This is a normal return: the record of the candidate held
  exactly \<open>burn_in\<close> samples before the reduction, and the reduction of that record returns
  it with the samples erased and mean and sd as they were (no division, no variance pass).
\<close>

theorem empty_samples_zero:
  assumes perm: "shuffle_permutes lib"
    and run: "time lib (funs :: ('e, 'r, 'w) candidate list) check opt w = Inr (out, w')"
    and k: "k < length funs"
    and empty: "times_vec (out ! k) = []"
  shows "mean (out ! k) = Fin 0 \<and> sd (out ! k) = Fin 0 \<and>
         (\<exists>s. dispatch_rounds lib funs check opt (time_order lib (length funs) opt)
                [0..<num_rounds opt] (time_init (length funs) w) = Inr s \<and>
              length (times_vec (output_vec s ! k)) = burn_rounds opt \<and>
              (reduce_timings opt (output_vec s ! k) :: ('e, 'w) failure + Timings) =
                Inr ((output_vec s ! k)\<lparr>times_vec := []\<rparr>))"
proof -
  from time_run [OF perm run k] obtain sb s bs ds where
    bn: "num_rounds opt = burn_rounds opt + nat (sint (iterations opt))" and
    d1: "dispatch_rounds lib funs check opt (time_order lib (length funs) opt)
           [0..<burn_rounds opt] (time_init (length funs) w) = Inr sb" and
    d2: "dispatch_rounds lib funs check opt (time_order lib (length funs) opt)
           [burn_rounds opt..<num_rounds opt] sb = Inr s" and
    bs: "length bs = burn_rounds opt" and
    raw: "output_vec s ! k = \<lparr>times_vec = bs @ ds, mean = foldl dadd (Fin 0) ds, sd = Fin 0\<rparr>" and
    rk: "(reduce_timings opt (output_vec s ! k) :: ('e, 'w) failure + Timings) = Inr (out ! k)" and
    red: "out ! k = reduced ds"
    by blast
  have "ds = []" using empty by (simp add: red reduced_simps)
  then have z: "out ! k = \<lparr>times_vec = [], mean = Fin 0, sd = Fin 0\<rparr>"
    by (simp add: red reduced_simps)
  have "[0..<num_rounds opt] = [0..<burn_rounds opt] @ [burn_rounds opt..<num_rounds opt]"
    unfolding bn by (rule upt_add_eq_append) simp
  with d1 d2 have d: "dispatch_rounds lib funs check opt (time_order lib (length funs) opt)
                [0..<num_rounds opt] (time_init (length funs) w) = Inr s"
    by (simp add: dispatch_rounds_def for_each_append)
  have "length (times_vec (output_vec s ! k)) = burn_rounds opt"
    using bs \<open>ds = []\<close> by (simp add: raw)
  moreover have "(reduce_timings opt (output_vec s ! k) :: ('e, 'w) failure + Timings) =
                Inr ((output_vec s ! k)\<lparr>times_vec := []\<rparr>)"
    using rk z \<open>ds = []\<close> by (simp add: raw)
  ultimately show ?thesis using z d by auto
qed

text \<open>
  The fixture with \<open>iterations = 0\<close>: the call returns, with empty sequences and zeros.
\<close>

theorem empty_samples_zero_witness:
  "shuffle_permutes test_lib \<and>
   time test_lib test_funs test_check (test_opt 0) 0 =
     Inr ([\<lparr>times_vec = [], mean = Fin 0, sd = Fin 0\<rparr>,
           \<lparr>times_vec = [], mean = Fin 0, sd = Fin 0\<rparr>],
          3 / 100) \<and>
   0 < length test_funs \<and>
   mean \<lparr>times_vec = [], mean = Fin 0, sd = Fin 0\<rparr> = Fin 0"
proof -
  have k: "0 < length test_funs" by (simp add: test_funs_length)
  from empty_samples_zero [OF test_lib_permutes test_time_0 k]
  have "mean \<lparr>times_vec = [], mean = Fin 0, sd = Fin 0\<rparr> = Fin 0" by simp
  then show ?thesis using test_lib_permutes test_time_0 k by blast
qed

text \<open>
  C8. When \<^verbatim>\<open>time\<close> returns and the returned sample sequence of candidate \<open>k\<close> has exactly
  one entry, the sd field is the quotient of zero by zero, which is NaN and so not finite;
  the mean is the one sample. The call returns normally with this value.
\<close>

theorem single_sample_sd:
  assumes perm: "shuffle_permutes lib"
    and run: "time lib (funs :: ('e, 'r, 'w) candidate list) check opt w = Inr (out, w')"
    and k: "k < length funs"
    and one: "length (times_vec (out ! k)) = 1"
  shows "sd (out ! k) = NaN \<and> \<not> is_finite (sd (out ! k)) \<and>
         (\<exists>d. times_vec (out ! k) = [Fin d] \<and> mean (out ! k) = Fin d \<and>
              sd (out ! k) = ddiv (Fin 0) (Fin 0))"
proof -
  from time_run [OF perm run k] obtain ds where
    fin: "list_all is_finite ds" and red: "out ! k = reduced ds" by blast
  have t: "times_vec (out ! k) = ds" by (simp add: red reduced_simps)
  with one obtain x where x: "ds = [x]" by (cases ds) auto
  with fin obtain d where d: "x = Fin d" by (cases x) auto
  show ?thesis
    by (simp add: red reduced_def x d sq_dev_sum_def)
qed

text \<open>
  The fixture with \<open>iterations = 1\<close>: both candidates come back with sd NaN.
\<close>

theorem single_sample_sd_witness:
  "shuffle_permutes test_lib \<and>
   time test_lib test_funs test_check (test_opt 1) 0 =
     Inr ([\<lparr>times_vec = [Fin (1 / 100)], mean = Fin (1 / 100), sd = NaN\<rparr>,
           \<lparr>times_vec = [Fin (3 / 50)], mean = Fin (3 / 50), sd = NaN\<rparr>],
          1 / 10) \<and>
   0 < length test_funs \<and>
   length [Fin (1 / 100)] = 1 \<and>
   sd \<lparr>times_vec = [Fin (1 / 100)], mean = Fin (1 / 100), sd = NaN\<rparr> = NaN"
proof -
  have k: "0 < length test_funs" by (simp add: test_funs_length)
  from single_sample_sd [OF test_lib_permutes test_time_1 k]
  have "sd \<lparr>times_vec = [Fin (1 / 100)], mean = Fin (1 / 100), sd = NaN\<rparr> = NaN" by simp
  then show ?thesis using test_lib_permutes test_time_1 k by simp
qed

text \<open>
  C6. Whenever \<^verbatim>\<open>time\<close> returns, the vector it returns has one record for each candidate,
  and the record at index \<open>k\<close> is the reduction of the record that the dispatch loop kept at
  index \<open>k\<close>; a call of a candidate changes no record but the one at its own index. It does
  return, for any list of candidates, when the shuffle permutes, neither a candidate nor
  the check throws, \<open>iterations\<close> and \<open>burn_in\<close> are not negative and their sum fits an
  \<^verbatim>\<open>int\<close>. With no candidate (and a shuffle that permutes, and a sum that fits) the call
  returns the empty vector and leaves the world as it was, whatever the options.
\<close>

theorem output_alignment:
  "(\<forall>out w'. time lib (funs :: ('e, 'r, 'w) candidate list) check opt w = Inr (out, w') \<longrightarrow>
      length out = length funs \<and>
      (\<exists>s. dispatch_rounds lib funs check opt (time_order lib (length funs) opt)
              [0..<num_rounds opt] (time_init (length funs) w) = Inr s \<and>
           w' = world s \<and> length (output_vec s) = length funs \<and>
           (\<forall>k<length funs.
              (reduce_timings opt (output_vec s ! k) :: ('e, 'w) failure + Timings) =
                Inr (out ! k)))) \<and>
   (\<forall>i c s s' k. call_candidate lib funs check opt i c s = Inr s' \<and> k \<noteq> c \<longrightarrow>
      output_vec s' ! k = output_vec s ! k) \<and>
   (shuffle_permutes lib \<and> never_throw funs check \<and>
    0 \<le> sint (iterations opt) \<and> 0 \<le> sint (burn_in opt) \<and>
    sint (iterations opt) + sint (burn_in opt) < 2 ^ 31 \<longrightarrow>
      (\<exists>out w'. time lib funs check opt w = Inr (out, w') \<and> length out = length funs)) \<and>
   (shuffle_permutes lib \<and> funs = [] \<and>
    - (2 ^ 31) \<le> sint (iterations opt) + sint (burn_in opt) \<and>
    sint (iterations opt) + sint (burn_in opt) < 2 ^ 31 \<longrightarrow>
      time lib funs check opt w = Inr ([], w))"
proof -
  have len: "length out = length funs \<and>
      (\<exists>s. dispatch_rounds lib funs check opt (time_order lib (length funs) opt)
              [0..<num_rounds opt] (time_init (length funs) w) = Inr s \<and>
           w' = world s \<and> length (output_vec s) = length funs \<and>
           (\<forall>k<length funs.
              (reduce_timings opt (output_vec s ! k) :: ('e, 'w) failure + Timings) =
                Inr (out ! k)))"
    if run: "time lib funs check opt w = Inr (out, w')" for out w'
  proof -
    from time_Inr(1) [OF run] obtain s where
      d: "dispatch_rounds lib funs check opt (time_order lib (length funs) opt)
            [0..<num_rounds opt] (time_init (length funs) w) = Inr s" and
      r: "(reduce_all opt (output_vec s) :: ('e, 'w) failure + Timings list) = Inr out" and
      w: "w' = world s" by blast
    from dispatch_rounds_length [OF d] have l: "length (output_vec s) = length funs"
      by (simp add: time_init_simps)
    from reduce_all_Inr [OF r] l have "length out = length funs"
      "\<forall>k<length funs.
         (reduce_timings opt (output_vec s ! k) :: ('e, 'w) failure + Timings) = Inr (out ! k)"
      by simp_all
    with d w l show ?thesis by blast
  qed
  have frame: "output_vec s' ! k = output_vec s ! k"
    if "call_candidate lib funs check opt i c s = Inr s' \<and> k \<noteq> c" for i c s s' k
    using that call_candidate_effect(3) by blast
  have returns: "\<exists>out w'. time lib funs check opt w = Inr (out, w') \<and> length out = length funs"
    if a: "shuffle_permutes lib \<and> never_throw funs check \<and>
      0 \<le> sint (iterations opt) \<and> 0 \<le> sint (burn_in opt) \<and>
      sint (iterations opt) + sint (burn_in opt) < 2 ^ 31"
  proof -
    from a time_returns [of lib funs check opt w] obtain out w' where
      "time lib funs check opt w = Inr (out, w')" by blast
    with len [OF this] show ?thesis by blast
  qed
  have none: "time lib funs check opt w = Inr ([], w)"
    if a: "shuffle_permutes lib \<and> funs = [] \<and>
      - (2 ^ 31) \<le> sint (iterations opt) + sint (burn_in opt) \<and>
      sint (iterations opt) + sint (burn_in opt) < 2 ^ 31"
  proof -
    from a have perm: "shuffle_permutes lib" and e: "funs = []" by simp_all
    from time_order_ok [OF perm, of 0 opt] have o: "time_order lib 0 opt = []"
      by (simp add: order_ok_def)
    show ?thesis
      using a by (simp add: time_def Let_def e o dispatch_rounds_no_funs time_init_def)
  qed
  from len frame returns none show ?thesis by blast
qed

text \<open>
  The fixture returns two records for its two candidates, and nothing for no candidate.
\<close>

theorem output_alignment_witness:
  "time test_lib test_funs test_check (test_opt 2) 0 =
     Inr ([\<lparr>times_vec = [Fin (1 / 100), Fin (1 / 100)], mean = Fin (1 / 100), sd = Fin 0\<rparr>,
           \<lparr>times_vec = [Fin (3 / 50), Fin (3 / 25)], mean = Fin (9 / 100), sd = Fin (9 / 5000)\<rparr>],
          23 / 100) \<and>
   length [\<lparr>times_vec = [Fin (1 / 100), Fin (1 / 100)], mean = Fin (1 / 100), sd = Fin 0\<rparr>,
           \<lparr>times_vec = [Fin (3 / 50), Fin (3 / 25)], mean = Fin (9 / 100), sd = Fin (9 / 5000)\<rparr>] =
     length test_funs \<and>
   shuffle_permutes test_lib \<and> never_throw test_funs test_check \<and>
   0 \<le> sint (iterations (test_opt 2)) \<and> 0 \<le> sint (burn_in (test_opt 2)) \<and>
   - (2 ^ 31) \<le> sint (iterations (test_opt 2)) + sint (burn_in (test_opt 2)) \<and>
   sint (iterations (test_opt 2)) + sint (burn_in (test_opt 2)) < 2 ^ 31 \<and>
   (\<exists>out w'. time test_lib test_funs test_check (test_opt 2) 0 = Inr (out, w') \<and>
      length out = length test_funs) \<and>
   time test_lib ([] :: (string, nat, real) candidate list) test_check (test_opt 2) 0 = Inr ([], 0)"
proof -
  have v: "0 \<le> sint (iterations (test_opt 2))" "0 \<le> sint (burn_in (test_opt 2))"
    by (simp_all add: test_opt_simps)
  have r: "- (2 ^ 31) \<le> sint (iterations (test_opt 2)) + sint (burn_in (test_opt 2))"
    "sint (iterations (test_opt 2)) + sint (burn_in (test_opt 2)) < 2 ^ 31"
    by (simp_all add: test_opt_simps)
  from output_alignment [of test_lib test_funs test_check "test_opt 2" 0] test_time_2
  have 1: "length [\<lparr>times_vec = [Fin (1 / 100), Fin (1 / 100)], mean = Fin (1 / 100), sd = Fin 0\<rparr>,
           \<lparr>times_vec = [Fin (3 / 50), Fin (3 / 25)], mean = Fin (9 / 100), sd = Fin (9 / 5000)\<rparr>] =
     length test_funs" by blast
  from output_alignment [of test_lib "[]" test_check "test_opt 2" 0] test_lib_permutes r
  have 2: "time test_lib ([] :: (string, nat, real) candidate list) test_check (test_opt 2) 0 =
      Inr ([], 0)" by blast
  from output_alignment [of test_lib test_funs test_check "test_opt 2" 0]
    test_lib_permutes test_never_throw v r(2)
  have 3: "\<exists>out w'. time test_lib test_funs test_check (test_opt 2) 0 = Inr (out, w') \<and>
      length out = length test_funs" by blast
  show ?thesis using test_time_2 1 test_lib_permutes test_never_throw v r 2 3 by blast
qed

text \<open>
  C10. Let \<open>iterations\<close> and \<open>burn_in\<close> be non-negative and let the dispatch loop run to its
  end (with a shuffle that permutes). Then the record of every candidate holds at least
  \<open>burn_in\<close> samples; for every \<open>j\<close> up to \<open>burn_in\<close>, the first \<open>j\<close> rounds alone leave exactly
  \<open>j\<close> samples in it, whatever the caps, and these are the first \<open>j\<close> samples of the final
  record, so that the first \<open>burn_in\<close> samples are the burn-in measurements; and the
  reduction of the record is defined: it returns the record with exactly these erased.
\<close>

theorem burn_in_prefix:
  assumes perm: "shuffle_permutes lib"
    and b0: "0 \<le> sint (burn_in opt)" and it0: "0 \<le> sint (iterations opt)"
    and d: "dispatch_rounds lib (funs :: ('e, 'r, 'w) candidate list) check opt
              (time_order lib (length funs) opt)
              [0..<num_rounds opt] (time_init (length funs) w) = Inr s"
    and k: "k < length funs"
  shows "burn_rounds opt \<le> length (times_vec (output_vec s ! k)) \<and>
         int (burn_rounds opt) = sint (burn_in opt) \<and>
         (\<forall>j\<le>burn_rounds opt. \<exists>sj.
            dispatch_rounds lib funs check opt (time_order lib (length funs) opt)
              [0..<j] (time_init (length funs) w) = Inr sj \<and>
            dispatch_rounds lib funs check opt (time_order lib (length funs) opt)
              [j..<num_rounds opt] sj = Inr s \<and>
            times_vec (output_vec sj ! k) = take j (times_vec (output_vec s ! k)) \<and>
            length (times_vec (output_vec sj ! k)) = j) \<and>
         (\<exists>t'. (reduce_timings opt (output_vec s ! k) :: ('e, 'w) failure + Timings) = Inr t' \<and>
               times_vec t' = drop (burn_rounds opt) (times_vec (output_vec s ! k)))"
proof -
  let ?N = "length funs"
  let ?init = "time_init ?N w"
  let ?D = "dispatch_rounds lib funs check opt (time_order lib ?N opt)"
  have bn: "burn_rounds opt \<le> num_rounds opt"
    using b0 it0 by (simp add: burn_rounds_def num_rounds_def)
  from dispatch_run [OF perm b0 bn d k] obtain sb bs ds where
    d1: "?D [0..<burn_rounds opt] ?init = Inr sb" and
    bs: "length bs = burn_rounds opt" and
    sbk: "output_vec sb ! k = \<lparr>times_vec = bs, mean = Fin 0, sd = Fin 0\<rparr>" and
    fin: "list_all is_finite ds" and
    raw: "output_vec s ! k = \<lparr>times_vec = bs @ ds, mean = foldl dadd (Fin 0) ds, sd = Fin 0\<rparr>"
    by blast
  note ok = time_order_ok [OF perm, of ?N opt]
  have i0: "oIt ?init = 0 * ?N" "length (output_vec ?init) = ?N"
    by (simp_all add: time_init_simps)
  have 1: "burn_rounds opt \<le> length (times_vec (output_vec s ! k))" using bs by (simp add: raw)
  have 2: "int (burn_rounds opt) = sint (burn_in opt)" using b0 by (simp add: burn_rounds_def)
  have 3: "\<exists>sj. ?D [0..<j] ?init = Inr sj \<and> ?D [j..<num_rounds opt] sj = Inr s \<and>
            times_vec (output_vec sj ! k) = take j (times_vec (output_vec s ! k)) \<and>
            length (times_vec (output_vec sj ! k)) = j" if j: "j \<le> burn_rounds opt" for j
  proof -
    from j bn have jn: "j \<le> num_rounds opt" by simp
    from dispatch_rounds_split [OF d _ jn] obtain sj where
      a: "?D [0..<j] ?init = Inr sj" and b: "?D [j..<num_rounds opt] sj = Inr s" by auto
    from dispatch_rounds_split [OF d1 _ j] obtain sj' where
      a': "?D [0..<j] ?init = Inr sj'" and b': "?D [j..<burn_rounds opt] sj' = Inr sb" by auto
    from a a' have eq: "sj' = sj" by simp
    have jb: "int j \<le> sint (burn_in opt)" using j 2 by simp
    from rounds_burn_in [OF ok i0 a _ jn jb] k obtain xs where
      sj: "oIt sj = j * ?N" "length (output_vec sj) = ?N" and
      xs: "length xs = j" "output_vec sj ! k = \<lparr>times_vec = xs, mean = Fin 0, sd = Fin 0\<rparr>"
      by (auto simp: time_init_simps)
    have bb: "int (burn_rounds opt) \<le> sint (burn_in opt)" using 2 by simp
    from rounds_burn_in [OF ok sj b' [unfolded eq] j bn bb] k obtain ys where
      "output_vec sb ! k = (output_vec sj ! k)\<lparr>times_vec := times_vec (output_vec sj ! k) @ ys\<rparr>"
      by blast
    then have "bs = xs @ ys" using sbk xs(2) by simp
    then have "take j (times_vec (output_vec s ! k)) = xs" using xs(1) by (simp add: raw)
    with a b xs show ?thesis by auto
  qed
  have "(reduce_timings opt (output_vec s ! k) :: ('e, 'w) failure + Timings) = Inr (reduced ds)"
    unfolding raw reduced_def by (rule reduce_timings_raw [OF b0 bs fin])
  moreover have "times_vec (reduced ds) = drop (burn_rounds opt) (times_vec (output_vec s ! k))"
    using bs by (simp add: raw reduced_simps)
  ultimately have 4: "\<exists>t'. (reduce_timings opt (output_vec s ! k) :: ('e, 'w) failure + Timings) = Inr t' \<and>
               times_vec t' = drop (burn_rounds opt) (times_vec (output_vec s ! k))" by blast
  from 1 2 3 4 show ?thesis by blast
qed

text \<open>
  The fixture: three samples for the second candidate after three rounds, one of them
  from the burn-in round.
\<close>

theorem burn_in_prefix_witness:
  "shuffle_permutes test_lib \<and>
   0 \<le> sint (burn_in (test_opt 2)) \<and> 0 \<le> sint (iterations (test_opt 2)) \<and>
   dispatch_rounds test_lib test_funs test_check (test_opt 2)
     (time_order test_lib (length test_funs) (test_opt 2))
     [0..<num_rounds (test_opt 2)] (time_init (length test_funs) 0) =
     Inr \<lparr>output_vec =
            [\<lparr>times_vec = [Fin (1 / 100), Fin (1 / 100), Fin (1 / 100)],
                mean = Fin (1 / 50), sd = Fin 0\<rparr>,
             \<lparr>times_vec = [Fin (1 / 50), Fin (3 / 50), Fin (3 / 25)],
                mean = Fin (9 / 50), sd = Fin 0\<rparr>],
          total_time = Fin 0, oIt = 6, world = 23 / 100\<rparr> \<and>
   Suc 0 < length test_funs \<and>
   burn_rounds (test_opt 2) = 1 \<and>
   burn_rounds (test_opt 2) \<le> length [Fin (1 / 50), Fin (3 / 50), Fin (3 / 25 :: real)]"
proof -
  have b: "0 \<le> sint (burn_in (test_opt 2))" "0 \<le> sint (iterations (test_opt 2))"
    by (simp_all add: test_opt_simps)
  have d: "dispatch_rounds test_lib test_funs test_check (test_opt 2)
     (time_order test_lib (length test_funs) (test_opt 2))
     [0..<num_rounds (test_opt 2)] (time_init (length test_funs) 0) =
     Inr \<lparr>output_vec =
            [\<lparr>times_vec = [Fin (1 / 100), Fin (1 / 100), Fin (1 / 100)],
                mean = Fin (1 / 50), sd = Fin 0\<rparr>,
             \<lparr>times_vec = [Fin (1 / 50), Fin (3 / 50), Fin (3 / 25)],
                mean = Fin (9 / 50), sd = Fin 0\<rparr>],
          total_time = Fin 0, oIt = 6, world = 23 / 100\<rparr>"
    by (simp add: test_funs_length test_order test_rounds test_all_rounds)
  have k: "Suc 0 < length test_funs" by (simp add: test_funs_length)
  have r: "burn_rounds (test_opt 2) = 1" by (simp add: burn_rounds_def test_opt_simps)
  from burn_in_prefix [OF test_lib_permutes b d k]
  have "burn_rounds (test_opt 2) \<le> length [Fin (1 / 50), Fin (3 / 50), Fin (3 / 25 :: real)]"
    by simp
  then show ?thesis using test_lib_permutes b d k r by blast
qed



text \<open>
  C5. Let the call for position \<open>p\<close> of the order be reached, in a burn-in round
  (\<open>i < burn_in\<close>). The candidate is called between two readings of the clock and the
  difference is appended to its samples; nothing else of the state changes but the world,
  which is left as the second reading left it. The outcome is the same for any other check
  and any other caps, so the caps are not consulted and the check is not called; running
  sum, sd and global sum stay as they are. If \<^verbatim>\<open>time\<close> returns, the candidate did return,
  and the sample stands in the record at the end of the dispatch loop at the index of the
  round, which is below \<open>burn_in\<close>; the reduction erases the first \<open>burn_in\<close> samples of that
  record, so the samples of the output are those from index \<open>burn_in\<close> on, and mean and sd
  of the output are computed from them alone.
\<close>

theorem burn_in_call:
  assumes perm: "shuffle_permutes lib"
    and p: "p < length (time_order lib (length funs) opt)"
    and pre: "run_until lib (funs :: ('e, 'r, 'w) candidate list) check opt w p = Inr s"
    and burn: "int (p div length funs) < sint (burn_in opt)"
    and cur: "current = time_order lib (length funs) opt ! p"
  shows "call_candidate lib funs check opt (int (p div length funs)) current s =
           (case steady_clock_now lib (world s) of
              (start, w1) \<Rightarrow>
                (case (funs ! current) w1 of
                   Inl (e, w) \<Rightarrow> Inl (Thrown e w)
                 | Inr (res, w2) \<Rightarrow>
                     (case steady_clock_now lib w2 of
                        (stop, w3) \<Rightarrow>
                          Inr (s\<lparr>output_vec := (output_vec s)
                                   [current := burn_in_sample (output_vec s ! current)
                                                 (Fin (stop - start))],
                                 world := w3\<rparr>)))) \<and>
         (\<forall>check' cap1 cap2.
            call_candidate lib funs check'
              (opt\<lparr>max_time_per_function := cap1, max_time_total := cap2\<rparr>)
              (int (p div length funs)) current s =
            call_candidate lib funs check opt (int (p div length funs)) current s) \<and>
         (\<forall>s'. call_candidate lib funs check opt (int (p div length funs)) current s = Inr s' \<longrightarrow>
            mean (output_vec s' ! current) = mean (output_vec s ! current) \<and>
            sd (output_vec s' ! current) = sd (output_vec s ! current) \<and>
            total_time s' = total_time s) \<and>
         (\<forall>out w'. time lib funs check opt w = Inr (out, w') \<longrightarrow>
            (\<exists>start w1 res w2 stop w3 sf.
               steady_clock_now lib (world s) = (start, w1) \<and>
               (funs ! current) w1 = Inr (res, w2) \<and>
               steady_clock_now lib w2 = (stop, w3) \<and>
               dispatch_rounds lib funs check opt (time_order lib (length funs) opt)
                 [0..<num_rounds opt] (time_init (length funs) w) = Inr sf \<and>
               p div length funs < burn_rounds opt \<and>
               burn_rounds opt \<le> length (times_vec (output_vec sf ! current)) \<and>
               times_vec (output_vec sf ! current) ! (p div length funs) = Fin (stop - start) \<and>
               (reduce_timings opt (output_vec sf ! current) :: ('e, 'w) failure + Timings) =
                 Inr (out ! current) \<and>
               times_vec (out ! current) =
                 drop (burn_rounds opt) (times_vec (output_vec sf ! current)) \<and>
               out ! current =
                 reduced (drop (burn_rounds opt) (times_vec (output_vec sf ! current)))))"
proof -
  let ?N = "length funs"
  let ?order = "time_order lib ?N opt"
  let ?j = "p div ?N"
  let ?init = "time_init ?N w"
  note ok = time_order_ok [OF perm, of ?N opt]
  note nth = order_ok_nth [OF ok p]
  have c: "current < ?N" using nth(1) cur by simp
  have c1: "current < length (output_vec s)"
  proof -
    from pre obtain sj where
      dj: "dispatch_rounds lib funs check opt ?order [0..<?j] ?init = Inr sj" and
      inner: "for_each (inner_step lib funs check opt ?order (int ?j)) [0..<p mod ?N] sj = Inr s"
      by (auto simp: run_until_def Let_def split: sum.splits)
    have i0: "oIt ?init = 0 * ?N" "length (output_vec ?init) = ?N"
      by (simp_all add: time_init_simps)
    from nth(2) have jn: "?j \<le> num_rounds opt" by simp
    from dispatch_rounds_shape [OF ok i0 dj _ jn] inner_loop_shape [OF inner] c
    show ?thesis by simp
  qed
  have b0: "0 \<le> sint (burn_in opt)" using burn by simp
  have jb: "?j < burn_rounds opt" using burn by (simp add: burn_rounds_def)
  have eq: "call_candidate lib funs check opt (int ?j) current s =
           (case steady_clock_now lib (world s) of
              (start, w1) \<Rightarrow>
                (case (funs ! current) w1 of
                   Inl (e, w) \<Rightarrow> Inl (Thrown e w)
                 | Inr (res, w2) \<Rightarrow>
                     (case steady_clock_now lib w2 of
                        (stop, w3) \<Rightarrow>
                          Inr (s\<lparr>output_vec := (output_vec s)
                                   [current := burn_in_sample (output_vec s ! current)
                                                 (Fin (stop - start))],
                                 world := w3\<rparr>))))"
    if "int ?j < sint (burn_in opt)"
    for check :: "('e, 'r, 'w) checker" and opt
    by (rule call_candidate_burn_in [OF that c1 c])
  have indep: "call_candidate lib funs check'
              (opt\<lparr>max_time_per_function := cap1, max_time_total := cap2\<rparr>) (int ?j) current s =
            call_candidate lib funs check opt (int ?j) current s" for check' cap1 cap2
    using burn by (simp add: eq)
  have post: "mean (output_vec s' ! current) = mean (output_vec s ! current) \<and>
            sd (output_vec s' ! current) = sd (output_vec s ! current) \<and>
            total_time s' = total_time s"
    if run: "call_candidate lib funs check opt (int ?j) current s = Inr s'" for s'
    using run [unfolded eq [OF burn]] c1
    by (auto simp: burn_in_sample_def split: prod.splits sum.splits)
  have final: "\<exists>start w1 res w2 stop w3 sf.
               steady_clock_now lib (world s) = (start, w1) \<and>
               (funs ! current) w1 = Inr (res, w2) \<and>
               steady_clock_now lib w2 = (stop, w3) \<and>
               dispatch_rounds lib funs check opt ?order [0..<num_rounds opt] ?init = Inr sf \<and>
               ?j < burn_rounds opt \<and>
               burn_rounds opt \<le> length (times_vec (output_vec sf ! current)) \<and>
               times_vec (output_vec sf ! current) ! ?j = Fin (stop - start) \<and>
               (reduce_timings opt (output_vec sf ! current) :: ('e, 'w) failure + Timings) =
                 Inr (out ! current) \<and>
               times_vec (out ! current) =
                 drop (burn_rounds opt) (times_vec (output_vec sf ! current)) \<and>
               out ! current =
                 reduced (drop (burn_rounds opt) (times_vec (output_vec sf ! current)))"
    if run: "time lib funs check opt w = Inr (out, w')" for out w'
  proof -
    from time_Inr(1) [OF run] obtain sf where
      fin: "dispatch_rounds lib funs check opt ?order [0..<num_rounds opt] ?init = Inr sf" and
      red: "(reduce_all opt (output_vec sf) :: ('e, 'w) failure + Timings list) = Inr out"
      by blast
    from burn_in_sample_position [OF perm p pre burn cur fin] obtain s' where
      call: "call_candidate lib funs check opt (int ?j) current s = Inr s'" and
      len: "length (times_vec (output_vec s ! current)) = ?j" and
      tk: "take (Suc ?j) (times_vec (output_vec sf ! current)) = times_vec (output_vec s' ! current)"
      by blast
    from call [unfolded eq [OF burn]] obtain start w1 res w2 stop w3 where
      r: "steady_clock_now lib (world s) = (start, w1)" "(funs ! current) w1 = Inr (res, w2)"
        "steady_clock_now lib w2 = (stop, w3)" and
      s': "s' = s\<lparr>output_vec := (output_vec s)
                   [current := burn_in_sample (output_vec s ! current) (Fin (stop - start))],
                 world := w3\<rparr>"
      by (auto split: prod.splits sum.splits)
    from s' c1 have "times_vec (output_vec s' ! current) =
        times_vec (output_vec s ! current) @ [Fin (stop - start)]"
      by (simp add: burn_in_sample_def)
    with tk len have "take (Suc ?j) (times_vec (output_vec sf ! current)) ! ?j = Fin (stop - start)"
      by (simp add: nth_append)
    then have at: "times_vec (output_vec sf ! current) ! ?j = Fin (stop - start)" by simp
    from time_run [OF perm run c] have bn: "burn_rounds opt \<le> num_rounds opt" by auto
    from dispatch_run [OF perm b0 bn fin c] obtain bs ds where
      raw: "length (output_vec sf) = ?N" "length bs = burn_rounds opt" "list_all is_finite ds"
        "output_vec sf ! current =
           \<lparr>times_vec = bs @ ds, mean = foldl dadd (Fin 0) ds, sd = Fin 0\<rparr>"
      by blast
    from reduce_all_Inr [OF red] raw(1) c have
      rt: "(reduce_timings opt (output_vec sf ! current) :: ('e, 'w) failure + Timings) =
             Inr (out ! current)" by simp
    have "(reduce_timings opt (output_vec sf ! current) :: ('e, 'w) failure + Timings) =
        Inr (reduced ds)"
      unfolding raw(4) reduced_def by (rule reduce_timings_raw [OF b0 raw(2,3)])
    with rt have o: "out ! current = reduced ds" by simp
    from raw(2,4) have dr: "drop (burn_rounds opt) (times_vec (output_vec sf ! current)) = ds"
      and le: "burn_rounds opt \<le> length (times_vec (output_vec sf ! current))" by simp_all
    from r fin jb le at rt o dr show ?thesis by (simp add: reduced_simps)
  qed
  from eq [OF burn] indep post final show ?thesis by blast
qed

text \<open>
  The first call of the fixture, also under caps of zero and with a check that always
  throws. Its sample of 20 ms is the first of three in the record of the candidate; the
  output holds the other two.
\<close>

theorem burn_in_call_witness:
  "shuffle_permutes test_lib \<and>
   0 < length (time_order test_lib (length test_funs) (test_opt 2)) \<and>
   run_until test_lib test_funs test_check (test_opt 2) 0 0 = Inr (time_init 2 0) \<and>
   int (0 div length test_funs) < sint (burn_in (test_opt 2)) \<and>
   Suc 0 = time_order test_lib (length test_funs) (test_opt 2) ! 0 \<and>
   call_candidate test_lib test_funs test_check (test_opt 2) 0 (Suc 0) (time_init 2 0) =
     Inr \<lparr>output_vec = [\<lparr>times_vec = [], mean = Fin 0, sd = Fin 0\<rparr>,
                        \<lparr>times_vec = [Fin (1 / 50)], mean = Fin 0, sd = Fin 0\<rparr>],
          total_time = Fin 0, oIt = 0, world = 1 / 50\<rparr> \<and>
   call_candidate test_lib test_funs failing_check
     ((test_opt 2)\<lparr>max_time_per_function := Some (Fin 0), max_time_total := Some (Fin 0)\<rparr>)
     0 (Suc 0) (time_init 2 0) =
     call_candidate test_lib test_funs test_check (test_opt 2) 0 (Suc 0) (time_init 2 0) \<and>
   time test_lib test_funs test_check (test_opt 2) 0 =
     Inr ([\<lparr>times_vec = [Fin (1 / 100), Fin (1 / 100)], mean = Fin (1 / 100), sd = Fin 0\<rparr>,
           \<lparr>times_vec = [Fin (3 / 50), Fin (3 / 25)], mean = Fin (9 / 100), sd = Fin (9 / 5000)\<rparr>],
          23 / 100) \<and>
   dispatch_rounds test_lib test_funs test_check (test_opt 2)
     (time_order test_lib (length test_funs) (test_opt 2)) [0..<num_rounds (test_opt 2)]
     (time_init (length test_funs) 0) =
     Inr \<lparr>output_vec =
            [\<lparr>times_vec = [Fin (1 / 100), Fin (1 / 100), Fin (1 / 100)],
                mean = Fin (1 / 50), sd = Fin 0\<rparr>,
             \<lparr>times_vec = [Fin (1 / 50), Fin (3 / 50), Fin (3 / 25)],
                mean = Fin (9 / 50), sd = Fin 0\<rparr>],
          total_time = Fin 0, oIt = 6, world = 23 / 100\<rparr> \<and>
   burn_rounds (test_opt 2) = 1 \<and>
   [Fin (1 / 50), Fin (3 / 50), Fin (3 / 25)] ! 0 = Fin (1 / 50) \<and>
   [Fin (3 / 50), Fin (3 / 25)] =
     drop (burn_rounds (test_opt 2)) [Fin (1 / 50), Fin (3 / 50), Fin (3 / 25)] \<and>
   \<lparr>times_vec = [Fin (3 / 50), Fin (3 / 25)], mean = Fin (9 / 100), sd = Fin (9 / 5000)\<rparr> =
     reduced (drop (burn_rounds (test_opt 2)) [Fin (1 / 50), Fin (3 / 50), Fin (3 / 25)])"
proof -
  have p: "0 < length (time_order test_lib (length test_funs) (test_opt 2))"
    by (simp add: test_funs_length test_order)
  have pre: "run_until test_lib test_funs test_check (test_opt 2) 0 0 = Inr (time_init 2 0)"
    by (simp add: run_until_def Let_def test_funs_length dispatch_rounds_def)
  have burn: "int (0 div length test_funs) < sint (burn_in (test_opt 2))"
    by (simp add: test_opt_simps)
  have cur: "Suc 0 = time_order test_lib (length test_funs) (test_opt 2) ! 0"
    by (simp add: test_funs_length test_order)
  have b: "burn_rounds (test_opt 2) = 1"
    by (simp add: burn_rounds_def test_opt_simps)
  have fin: "dispatch_rounds test_lib test_funs test_check (test_opt 2)
     (time_order test_lib (length test_funs) (test_opt 2)) [0..<num_rounds (test_opt 2)]
     (time_init (length test_funs) 0) =
     Inr \<lparr>output_vec =
            [\<lparr>times_vec = [Fin (1 / 100), Fin (1 / 100), Fin (1 / 100)],
                mean = Fin (1 / 50), sd = Fin 0\<rparr>,
             \<lparr>times_vec = [Fin (1 / 50), Fin (3 / 50), Fin (3 / 25)],
                mean = Fin (9 / 50), sd = Fin 0\<rparr>],
          total_time = Fin 0, oIt = 6, world = 23 / 100\<rparr>"
    by (simp only: test_funs_length test_order test_rounds One_nat_def test_all_rounds)
  note th = burn_in_call [OF test_lib_permutes p pre burn cur]
  from th have 1:
    "call_candidate test_lib test_funs test_check (test_opt 2) 0 (Suc 0) (time_init 2 0) =
     Inr \<lparr>output_vec = [\<lparr>times_vec = [], mean = Fin 0, sd = Fin 0\<rparr>,
                        \<lparr>times_vec = [Fin (1 / 50)], mean = Fin 0, sd = Fin 0\<rparr>],
          total_time = Fin 0, oIt = 0, world = 1 / 50\<rparr>"
    by (simp add: test_funs_length)
       (simp add: test_lib_def test_funs_def sleeper_def test_duration_def burn_in_sample_def
          time_init_def Timings_init_def replicate2)
  from th have 2: "call_candidate test_lib test_funs failing_check
     ((test_opt 2)\<lparr>max_time_per_function := Some (Fin 0), max_time_total := Some (Fin 0)\<rparr>)
     0 (Suc 0) (time_init 2 0) =
     call_candidate test_lib test_funs test_check (test_opt 2) 0 (Suc 0) (time_init 2 0)"
    by (simp add: test_funs_length)
  from th test_time_2 obtain start w1 res w2 stop w3 sf where
    r: "steady_clock_now test_lib (world (time_init 2 (0 :: real))) = (start, w1)"
       "(test_funs ! Suc 0) w1 = Inr (res, w2)" "steady_clock_now test_lib w2 = (stop, w3)" and
    sf: "dispatch_rounds test_lib test_funs test_check (test_opt 2)
           (time_order test_lib (length test_funs) (test_opt 2)) [0..<num_rounds (test_opt 2)]
           (time_init (length test_funs) 0) = Inr sf" and
    at: "times_vec (output_vec sf ! Suc 0) ! (0 div length test_funs) = Fin (stop - start)" and
    dr: "times_vec ([\<lparr>times_vec = [Fin (1 / 100), Fin (1 / 100)], mean = Fin (1 / 100), sd = Fin 0\<rparr>,
           \<lparr>times_vec = [Fin (3 / 50), Fin (3 / 25)], mean = Fin (9 / 100), sd = Fin (9 / 5000)\<rparr>]
           ! Suc 0) = drop (burn_rounds (test_opt 2)) (times_vec (output_vec sf ! Suc 0))" and
    rd: "[\<lparr>times_vec = [Fin (1 / 100), Fin (1 / 100)], mean = Fin (1 / 100), sd = Fin 0\<rparr>,
           \<lparr>times_vec = [Fin (3 / 50), Fin (3 / 25)], mean = Fin (9 / 100), sd = Fin (9 / 5000)\<rparr>]
           ! Suc 0 = reduced (drop (burn_rounds (test_opt 2)) (times_vec (output_vec sf ! Suc 0)))"
    by blast
  from sf fin have sf': "sf = \<lparr>output_vec =
            [\<lparr>times_vec = [Fin (1 / 100), Fin (1 / 100), Fin (1 / 100)],
                mean = Fin (1 / 50), sd = Fin 0\<rparr>,
             \<lparr>times_vec = [Fin (1 / 50), Fin (3 / 50), Fin (3 / 25)],
                mean = Fin (9 / 50), sd = Fin 0\<rparr>],
          total_time = Fin 0, oIt = 6, world = 23 / 100\<rparr>" by simp
  from r have "stop - start = 1 / 50"
    by (auto simp: test_lib_def test_funs_def sleeper_def test_duration_def time_init_def)
  with at have 3: "[Fin (1 / 50), Fin (3 / 50), Fin (3 / 25)] ! 0 = Fin (1 / 50)"
    unfolding sf' by simp
  from dr have 4: "[Fin (3 / 50), Fin (3 / 25)] =
     drop (burn_rounds (test_opt 2)) [Fin (1 / 50), Fin (3 / 50), Fin (3 / 25)]"
    unfolding sf' by simp
  from rd have 5:
    "\<lparr>times_vec = [Fin (3 / 50), Fin (3 / 25)], mean = Fin (9 / 100), sd = Fin (9 / 5000)\<rparr> =
     reduced (drop (burn_rounds (test_opt 2)) [Fin (1 / 50), Fin (3 / 50), Fin (3 / 25)])"
    unfolding sf' by simp
  from test_lib_permutes p pre burn cur 1 2 test_time_2 fin b 3 4 5 show ?thesis
    by (intro conjI)
qed

text \<open>
  C9. Let the call for position \<open>p\<close> of the order be reached, in a timed round, and not be
  skipped; let the candidate return and the check throw \<open>e\<close>, leaving the world \<open>wt\<close>. Then
  \<^verbatim>\<open>time\<close> ends with this exception: it returns no timings, and the world it leaves is the
  world at the throw, so nothing of the remaining schedule has run.
\<close>

theorem check_failure_propagates:
  assumes perm: "shuffle_permutes lib"
    and range: "sint (iterations opt) + sint (burn_in opt) < 2 ^ 31"
    and p: "p < length (time_order lib (length funs) opt)"
    and pre: "run_until lib funs check opt w p = Inr s"
    and timed: "sint (burn_in opt) \<le> int (p div length funs)"
    and noskip: "\<not> ((\<exists>m. max_time_per_function opt = Some m \<and>
                         reached (mean (output_vec s ! current)) m) \<or>
                    (\<exists>m. max_time_total opt = Some m \<and> reached (total_time s) m))"
    and cur: "current = time_order lib (length funs) opt ! p"
    and call: "(funs ! current) (snd (steady_clock_now lib (world s))) = Inr (res, w2)"
    and thrown: "check res current (snd (steady_clock_now lib w2)) = Inl (e, wt)"
  shows "time lib funs check opt w = Inl (Thrown e wt)"
proof -
  let ?N = "length funs"
  let ?order = "time_order lib ?N opt"
  let ?n = "num_rounds opt"
  let ?j = "p div ?N"
  let ?f = "p mod ?N"
  let ?init = "time_init ?N w"
  let ?D = "dispatch_rounds lib funs check opt ?order"
  let ?I = "inner_step lib funs check opt ?order (int ?j)"
  note ok = time_order_ok [OF perm, of ?N opt]
  note nth = order_ok_nth [OF ok p]
  from pre obtain sj where
    dj: "?D [0..<?j] ?init = Inr sj" and inner: "for_each ?I [0..<?f] sj = Inr s"
    by (auto simp: run_until_def Let_def split: sum.splits)
  have i0: "oIt ?init = 0 * ?N" "length (output_vec ?init) = ?N"
    by (simp_all add: time_init_simps)
  from nth(2) have jn: "?j \<le> ?n" by simp
  from dispatch_rounds_shape [OF ok i0 dj _ jn] have
    sj: "oIt sj = ?j * ?N" "length (output_vec sj) = ?N" by simp_all
  from inner_loop_shape [OF inner] sj have
    s: "oIt s = p" "length (output_vec s) = ?N" by simp_all
  have c: "current < ?N" using nth(1) cur by simp
  from c s(2) have c': "current < length (output_vec s)" by simp
  have "call_candidate lib funs check opt (int ?j) current s = Inl (Thrown e wt)"
    using call thrown
    unfolding call_candidate_called [OF timed c' c noskip]
    by (cases "steady_clock_now lib (world s)"; cases "steady_clock_now lib w2") simp
  then have step: "?I ?f s = Inl (Thrown e wt)"
    using p s(1) cur by (simp add: inner_step_def dispatch_call_def)
  have f: "?f < ?N" using nth(3) by simp
  then have "[0..<?N] = [0..<?f] @ ?f # [Suc ?f..<?N]" by (rule upt_split)
  then have "dispatch_round lib funs check opt ?order ?j sj =
      for_each ?I ([0..<?f] @ ?f # [Suc ?f..<?N]) sj"
    by (simp add: dispatch_round_def)
  with for_each_fails [OF inner step] have
    rnd: "dispatch_round lib funs check opt ?order ?j sj = Inl (Thrown e wt)" by simp
  from nth(2) have "[0..<?n] = [0..<?j] @ ?j # [Suc ?j..<?n]" by (rule upt_split)
  then have "?D [0..<?n] ?init =
      for_each (dispatch_round lib funs check opt ?order) ([0..<?j] @ ?j # [Suc ?j..<?n]) ?init"
    by (simp add: dispatch_rounds_def)
  with for_each_fails [OF dj [unfolded dispatch_rounds_def] rnd] have
    all: "?D [0..<?n] ?init = Inl (Thrown e wt)" by simp
  from nth(2) have "0 < sint (iterations opt) + sint (burn_in opt)"
    by (simp add: num_rounds_def)
  with range all show ?thesis
    by (simp add: time_def Let_def num_rounds_def)
qed

text \<open>
  The candidates of the fixture in swapped order: the check throws at the first timed
  call, 100 ms into the run.
\<close>

theorem check_failure_propagates_witness:
  "shuffle_permutes test_lib \<and>
   sint (iterations (test_opt 1)) + sint (burn_in (test_opt 1)) < 2 ^ 31 \<and>
   2 < length (time_order test_lib (length swapped_funs) (test_opt 1)) \<and>
   run_until test_lib swapped_funs test_check (test_opt 1) 0 2 =
     Inr \<lparr>output_vec = [\<lparr>times_vec = [Fin (3 / 100)], mean = Fin 0, sd = Fin 0\<rparr>,
                        \<lparr>times_vec = [Fin (1 / 100)], mean = Fin 0, sd = Fin 0\<rparr>],
          total_time = Fin 0, oIt = 2, world = 1 / 25\<rparr> \<and>
   sint (burn_in (test_opt 1)) \<le> int (2 div length swapped_funs) \<and>
   max_time_per_function (test_opt 1) = None \<and> max_time_total (test_opt 1) = None \<and>
   0 = time_order test_lib (length swapped_funs) (test_opt 1) ! 2 \<and>
   (swapped_funs ! 0) (snd (steady_clock_now test_lib (1 / 25))) = Inr (1, 1 / 10) \<and>
   test_check 1 0 (snd (steady_clock_now test_lib (1 / 10))) = Inl (''whoops'', 1 / 10) \<and>
   time test_lib swapped_funs test_check (test_opt 1) 0 = Inl (Thrown ''whoops'' (1 / 10))"
proof -
  have range: "sint (iterations (test_opt 1)) + sint (burn_in (test_opt 1)) < 2 ^ 31"
    by (simp add: test_opt_1 test_opt_simps)
  have p: "2 < length (time_order test_lib (length swapped_funs) (test_opt 1))"
    by (simp add: swapped_funs_length test_order_1)
  have timed: "sint (burn_in (test_opt 1)) \<le> int (2 div length swapped_funs)"
    by (simp add: swapped_funs_length test_opt_simps)
  have caps: "max_time_per_function (test_opt 1) = None" "max_time_total (test_opt 1) = None"
    by (simp_all add: test_opt_simps)
  have cur: "0 = time_order test_lib (length swapped_funs) (test_opt 1) ! 2"
    by (simp add: swapped_funs_length test_order_1)
  have call: "(swapped_funs ! 0) (snd (steady_clock_now test_lib (1 / 25))) = Inr (1, 1 / 10)"
    by (simp add: swapped_funs_def sleeper_def test_duration_def test_lib_def)
  have thrown: "test_check 1 0 (snd (steady_clock_now test_lib (1 / 10))) = Inl (''whoops'', 1 / 10)"
    by (simp add: test_check_def test_lib_def)
  have "time test_lib swapped_funs test_check (test_opt 1) 0 = Inl (Thrown ''whoops'' (1 / 10))"
    by (rule check_failure_propagates
          [OF test_lib_permutes range p swapped_run_until timed _ cur _ thrown])
       (simp_all add: caps call)
  then show ?thesis
    using test_lib_permutes range p swapped_run_until timed caps cur call thrown by blast
qed

end
